theory Spec2Isabelle
  imports Main
begin

section \<open>Readability service: data model\<close>

text \<open>
  The service of \<^verbatim>\<open>package service\<close> (readability) fetches the page of a stored entry,
  sanitizes it, extracts the article and stores the rendered HTML. Its collaborators (the
  entry repository, the HTTP session, the Anubis solver, the sanitizer, the readability
  parser, \<^verbatim>\<open>url.Parse\<close>) are libraries or packages outside the two functions
  \<^verbatim>\<open>FetchReadableContent\<close> and \<^verbatim>\<open>fetchWithChrome\<close>, so they are fields of an environment
  record and every theorem holds for all of them. A cancelled \<^verbatim>\<open>ctx\<close> shows as an error
  that a collaborator returns.
\<close>

text \<open>
  Errors. \<^verbatim>\<open>ErrNotFound\<close>, \<^verbatim>\<open>ErrInvalid\<close> and \<^verbatim>\<open>ErrFeedFetch\<close> are the
  sentinel errors of the package, \<^verbatim>\<open>SqlErrNoRows\<close> is \<^verbatim>\<open>sql.ErrNoRows\<close>,
  \<^verbatim>\<open>Wrapped m e\<close> is \<^verbatim>\<open>fmt.Errorf("m: %w", e)\<close>, \<^verbatim>\<open>HTTPStatus n\<close> is
  \<^verbatim>\<open>fmt.Errorf("HTTP %d", n)\<close> and \<^verbatim>\<open>External m\<close> is any error value produced by a
  collaborator.
\<close>

datatype error =
    ErrNotFound
  | ErrInvalid
  | ErrFeedFetch
  | SqlErrNoRows
  | Wrapped string error
  | HTTPStatus int
  | External string

text \<open>\<^verbatim>\<open>errors.Is\<close>: follows the chain of wrapped errors.\<close>

fun errors_Is :: "error \<Rightarrow> error \<Rightarrow> bool" where
  "errors_Is (Wrapped m e) target = (Wrapped m e = target \<or> errors_Is e target)"
| "errors_Is e target = (e = target)"

text \<open>\<^verbatim>\<open>model.Entry\<close>, the fields the service reads; both are \<^verbatim>\<open>*string\<close>.\<close>

record entry =
  URL :: "string option"
  ReadableContent :: "string option"

text \<open>The fields of \<^verbatim>\<open>url.URL\<close> the service reads.\<close>

record parsed_url =
  Scheme :: string
  Host :: string

text \<open>\<^verbatim>\<open>azuretls.Request\<close> and \<^verbatim>\<open>azuretls.Response\<close>. The response cookies are a Go
  map; the list is the map in the order the \<^verbatim>\<open>range\<close> loop visits it.\<close>

record request =
  Method :: string
  Url :: string
  OrderedHeaders :: "(string \<times> string) list"

record response =
  StatusCode :: int
  Body :: string
  Cookies :: "(string \<times> string) list"

text \<open>
  \<^verbatim>\<open>*anubis.Solver\<close>: the cookie cache and the solver, over the state \<open>'n\<close> of the
  network and of the cache. \<^verbatim>\<open>SolveFromBody\<close> takes the body, the target URL and the
  initial cookies.
\<close>

record 'n solver =
  GetCachedCookie :: "'n \<Rightarrow> string \<Rightarrow> string \<times> 'n"
  SolveFromBody :: "'n \<Rightarrow> string \<Rightarrow> string \<Rightarrow> (string \<times> string) list \<Rightarrow> (error + string) \<times> 'n"

text \<open>
  The collaborators. \<open>'d\<close> is the state of the entry repository, \<open>'n\<close> the state of the
  network and cookie cache, \<open>'a\<close> the article type of the readability parser.
  \<^verbatim>\<open>anubis\<close> is a pointer that may be nil.
\<close>

record ('d, 'n, 'a) env =
  GetByID :: "'d \<Rightarrow> int \<Rightarrow> error + entry"
  UpdateReadableContent :: "'d \<Rightarrow> int \<Rightarrow> string \<Rightarrow> error option \<times> 'd"
  url_Parse :: "string \<Rightarrow> error + parsed_url"
  session_Do :: "'n \<Rightarrow> request \<Rightarrow> (error + response) \<times> 'n"
  anubis :: "'n solver option"
  IsAnubisChallenge :: "string \<Rightarrow> bool"
  Sanitize :: "string \<Rightarrow> string"
  readability_Parse :: "string \<Rightarrow> parsed_url \<Rightarrow> error + 'a"
  RenderHTML :: "'a \<Rightarrow> error + string"
  ChromeUserAgent :: string

text \<open>
  The effects of a call, in the order they happen: a lookup in the cookie cache, an HTTP
  GET, a challenge solve, a write of readable content to the repository.
\<close>

datatype event =
    EvCacheLookup string
  | EvGet request
  | EvSolve string string "(string \<times> string) list"
  | EvUpdate int string

record ('d, 'n) world =
  repo :: 'd
  net :: 'n
  trace :: "event list"

section \<open>fetchWithChrome\<close>

text \<open>The ordered headers of lines 137 to 154, before the cookie is added.\<close>

definition chrome_headers :: "string \<Rightarrow> (string \<times> string) list" where
  "chrome_headers ua =
    [(''accept'', ''text/html,application/xhtml+xml,application/xml;q=0.9,image/avif,image/webp,image/apng,*/*;q=0.8,application/signed-exchange;v=b3;q=0.7''),
     (''accept-language'', ''zh-CN,zh;q=0.9''),
     (''cache-control'', ''max-age=0''),
     (''priority'', ''u=0, i''),
     (''sec-ch-ua'', [CHR 0x22] @ ''Google Chrome'' @ [CHR 0x22] @ '';v='' @ [CHR 0x22] @ ''135'' @ [CHR 0x22]
        @ '', '' @ [CHR 0x22] @ ''Chromium'' @ [CHR 0x22] @ '';v='' @ [CHR 0x22] @ ''135'' @ [CHR 0x22]
        @ '', '' @ [CHR 0x22] @ ''Not-A.Brand'' @ [CHR 0x22] @ '';v='' @ [CHR 0x22] @ ''8'' @ [CHR 0x22]),
     (''sec-ch-ua-arch'', [CHR 0x22] @ ''x86'' @ [CHR 0x22]),
     (''sec-ch-ua-mobile'', ''?0''),
     (''sec-ch-ua-model'', [CHR 0x22, CHR 0x22]),
     (''sec-ch-ua-platform'', [CHR 0x22] @ ''Windows'' @ [CHR 0x22]),
     (''sec-ch-ua-platform-version'', [CHR 0x22] @ ''19.0.0'' @ [CHR 0x22]),
     (''sec-fetch-dest'', ''document''),
     (''sec-fetch-mode'', ''navigate''),
     (''sec-fetch-site'', ''none''),
     (''sec-fetch-user'', ''?1''),
     (''upgrade-insecure-requests'', ''1''),
     (''user-agent'', ua)]"

text \<open>
  Lines 156 to 163: the cookie header. A non-empty cookie argument is used as it is;
  otherwise, with a solver, the cache is asked for the host and a non-empty answer is used.
  Returns the headers and the world after the lookup.
\<close>

definition add_cookie ::
  "('d, 'n, 'a) env \<Rightarrow> ('d, 'n) world \<Rightarrow> string \<Rightarrow> string \<Rightarrow> (string \<times> string) list \<Rightarrow>
     (string \<times> string) list \<times> ('d, 'n) world" where
  "add_cookie E w host cookie headers =
    (if cookie \<noteq> [] then (headers @ [(''cookie'', cookie)], w)
     else case anubis E of
       None \<Rightarrow> (headers, w)
     | Some a \<Rightarrow>
         (let (cachedCookie, n') = GetCachedCookie a (net w) host;
              w' = w\<lparr>net := n', trace := trace w @ [EvCacheLookup host]\<rparr>
          in if cachedCookie \<noteq> [] then (headers @ [(''cookie'', cachedCookie)], w')
             else (headers, w')))"

text \<open>
  \<^verbatim>\<open>fetchWithChrome\<close> calls itself after a solve (line 193). The first argument after the
  environment bounds the depth of the calls: the result is \<open>None\<close> when the bound is
  reached, so that a call chain that never ends is \<open>None\<close> for every bound.
\<close>

fun fetchWithChrome ::
  "('d, 'n, 'a) env \<Rightarrow> nat \<Rightarrow> ('d, 'n) world \<Rightarrow> string \<Rightarrow> string \<Rightarrow>
     ((error + string) \<times> ('d, 'n) world) option" where
  "fetchWithChrome E 0 w targetURL cookie = None"
| "fetchWithChrome E (Suc k) w targetURL cookie =
    (case url_Parse E targetURL of
       Inl err \<Rightarrow> Some (Inl ErrFeedFetch, w)
     | Inr parsedURL \<Rightarrow>
        if Scheme parsedURL \<noteq> ''http'' \<and> Scheme parsedURL \<noteq> ''https'' then Some (Inl ErrInvalid, w)
        else
          (let (headers, w1) = add_cookie E w (Host parsedURL) cookie (chrome_headers (ChromeUserAgent E));
               req = \<lparr>Method = ''GET'', Url = targetURL, OrderedHeaders = headers\<rparr>;
               (r, n2) = session_Do E (net w1) req;
               w2 = w1\<lparr>net := n2, trace := trace w1 @ [EvGet req]\<rparr>
           in case r of
                Inl err \<Rightarrow> Some (Inl (Wrapped ''request failed'' err), w2)
              | Inr resp \<Rightarrow>
                 if StatusCode resp \<noteq> 200 then Some (Inl (HTTPStatus (StatusCode resp)), w2)
                 else
                   (let body = Body resp in
                    case anubis E of
                      None \<Rightarrow> Some (Inr body, w2)
                    | Some a \<Rightarrow>
                       if cookie = [] \<and> IsAnubisChallenge E body then
                         (let initialCookies = Cookies resp;
                              (sr, n3) = SolveFromBody a (net w2) body targetURL initialCookies;
                              w3 = w2\<lparr>net := n3, trace := trace w2 @ [EvSolve body targetURL initialCookies]\<rparr>
                          in case sr of
                               Inl solveErr \<Rightarrow> Some (Inl (Wrapped ''anubis solve failed'' solveErr), w3)
                             | Inr newCookie \<Rightarrow> fetchWithChrome E k w3 targetURL newCookie)
                       else Some (Inr body, w2))))"

section \<open>FetchReadableContent\<close>

text \<open>
  Lines 56 to 115. The second argument is the depth bound handed to \<^verbatim>\<open>fetchWithChrome\<close>.
  \<^verbatim>\<open>GetByID\<close> reads the repository and changes nothing; \<^verbatim>\<open>UpdateReadableContent\<close> is
  the only write.
\<close>

definition FetchReadableContent ::
  "('d, 'n, 'a) env \<Rightarrow> nat \<Rightarrow> ('d, 'n) world \<Rightarrow> int \<Rightarrow>
     ((error + string) \<times> ('d, 'n) world) option" where
  "FetchReadableContent E fuel w entryID =
    (case GetByID E (repo w) entryID of
       Inl err \<Rightarrow>
         if errors_Is err SqlErrNoRows then Some (Inl ErrNotFound, w) else Some (Inl err, w)
     | Inr e \<Rightarrow>
        if ReadableContent e \<noteq> None \<and> the (ReadableContent e) \<noteq> [] then
          Some (Inr (the (ReadableContent e)), w)
        else if URL e = None \<or> the (URL e) = [] then Some (Inl ErrInvalid, w)
        else
          (case fetchWithChrome E fuel w (the (URL e)) [] of
             None \<Rightarrow> None
           | Some (Inl err, w1) \<Rightarrow> Some (Inl err, w1)
           | Some (Inr body, w1) \<Rightarrow>
              (let sanitized = Sanitize E body in
               case url_Parse E (the (URL e)) of
                 Inl err \<Rightarrow> Some (Inl (Wrapped ''parse URL failed'' err), w1)
               | Inr parsedURL \<Rightarrow>
                  (case readability_Parse E sanitized parsedURL of
                     Inl err \<Rightarrow> Some (Inl (Wrapped ''parse content failed'' err), w1)
                   | Inr article \<Rightarrow>
                      (case RenderHTML E article of
                         Inl err \<Rightarrow> Some (Inl (Wrapped ''render failed'' err), w1)
                       | Inr content \<Rightarrow>
                          if content = [] then Some (Inl ErrInvalid, w1)
                          else
                            (let (r, d') = UpdateReadableContent E (repo w1) entryID content;
                                 w2 = w1\<lparr>repo := d', trace := trace w1 @ [EvUpdate entryID content]\<rparr>
                             in case r of
                                  Some err \<Rightarrow> Some (Inl err, w2)
                                | None \<Rightarrow> Some (Inr content, w2)))))))"

section \<open>Events of a call\<close>

text \<open>Kinds of events, and how many of a kind a list of events holds.\<close>

fun is_get :: "event \<Rightarrow> bool" where
  "is_get (EvGet r) = True" | "is_get e = False"

fun is_solve :: "event \<Rightarrow> bool" where
  "is_solve (EvSolve b u c) = True" | "is_solve e = False"

fun is_update :: "event \<Rightarrow> bool" where
  "is_update (EvUpdate i c) = True" | "is_update e = False"

definition count_gets :: "event list \<Rightarrow> nat" where
  "count_gets evs = length (filter is_get evs)"

definition count_solves :: "event list \<Rightarrow> nat" where
  "count_solves evs = length (filter is_solve evs)"

definition count_updates :: "event list \<Rightarrow> nat" where
  "count_updates evs = length (filter is_update evs)"

text \<open>The events a call added: the trace of the world after it, without the trace before.\<close>

definition new_events :: "('d, 'n) world \<Rightarrow> ('d, 'n) world \<Rightarrow> event list" where
  "new_events w w' = drop (length (trace w)) (trace w')"

text \<open>
  The two shapes of the GET of line 165: the fixed headers followed by a cookie header, and
  the fixed headers alone.
\<close>

definition get_with_cookie :: "('d, 'n, 'a) env \<Rightarrow> string \<Rightarrow> string \<Rightarrow> event" where
  "get_with_cookie E u c =
     EvGet \<lparr>Method = ''GET'', Url = u, OrderedHeaders = chrome_headers (ChromeUserAgent E) @ [(''cookie'', c)]\<rparr>"

definition get_plain :: "('d, 'n, 'a) env \<Rightarrow> string \<Rightarrow> event" where
  "get_plain E u = EvGet \<lparr>Method = ''GET'', Url = u, OrderedHeaders = chrome_headers (ChromeUserAgent E)\<rparr>"

text \<open>
  One pass through the body of \<^verbatim>\<open>fetchWithChrome\<close>, lines 126 to 196: it either ends
  the call with a result, or reaches the call of line 193 with the cookie it passes on.
  This is the body of the function above with the recursive call left out; the lemma
  \<open>fetchWithChrome_pass\<close> below states it.
\<close>

datatype ('d, 'n) pass = Done "error + string" "('d, 'n) world" | Retry string "('d, 'n) world"

definition fetch_pass ::
  "('d, 'n, 'a) env \<Rightarrow> ('d, 'n) world \<Rightarrow> string \<Rightarrow> string \<Rightarrow> ('d, 'n) pass" where
  "fetch_pass E w targetURL cookie =
    (case url_Parse E targetURL of
       Inl err \<Rightarrow> Done (Inl ErrFeedFetch) w
     | Inr parsedURL \<Rightarrow>
        if Scheme parsedURL \<noteq> ''http'' \<and> Scheme parsedURL \<noteq> ''https'' then Done (Inl ErrInvalid) w
        else
          (let (headers, w1) = add_cookie E w (Host parsedURL) cookie (chrome_headers (ChromeUserAgent E));
               req = \<lparr>Method = ''GET'', Url = targetURL, OrderedHeaders = headers\<rparr>;
               (r, n2) = session_Do E (net w1) req;
               w2 = w1\<lparr>net := n2, trace := trace w1 @ [EvGet req]\<rparr>
           in case r of
                Inl err \<Rightarrow> Done (Inl (Wrapped ''request failed'' err)) w2
              | Inr resp \<Rightarrow>
                 if StatusCode resp \<noteq> 200 then Done (Inl (HTTPStatus (StatusCode resp))) w2
                 else
                   (let body = Body resp in
                    case anubis E of
                      None \<Rightarrow> Done (Inr body) w2
                    | Some a \<Rightarrow>
                       if cookie = [] \<and> IsAnubisChallenge E body then
                         (let initialCookies = Cookies resp;
                              (sr, n3) = SolveFromBody a (net w2) body targetURL initialCookies;
                              w3 = w2\<lparr>net := n3, trace := trace w2 @ [EvSolve body targetURL initialCookies]\<rparr>
                          in case sr of
                               Inl solveErr \<Rightarrow> Done (Inl (Wrapped ''anubis solve failed'' solveErr)) w3
                             | Inr newCookie \<Rightarrow> Retry newCookie w3)
                       else Done (Inr body) w2)))"

text \<open>
  An entry that gets past lines 65 to 73: no stored content (nil or empty) and a non-empty
  URL.
\<close>

definition needs_fetch :: "entry \<Rightarrow> string \<Rightarrow> bool" where
  "needs_fetch e u = ((ReadableContent e = None \<or> ReadableContent e = Some []) \<and> URL e = Some u \<and> u \<noteq> [])"

text \<open>
  Lines 81 to 114 of \<^verbatim>\<open>FetchReadableContent\<close>, what it does with the body that
  \<^verbatim>\<open>fetchWithChrome\<close> returned; the lemma \<open>FetchReadableContent_fetch\<close> below states it.
\<close>

definition extract_and_store ::
  "('d, 'n, 'a) env \<Rightarrow> ('d, 'n) world \<Rightarrow> int \<Rightarrow> string \<Rightarrow> string \<Rightarrow>
     ((error + string) \<times> ('d, 'n) world) option" where
  "extract_and_store E w1 entryID url body =
    (let sanitized = Sanitize E body in
     case url_Parse E url of
       Inl err \<Rightarrow> Some (Inl (Wrapped ''parse URL failed'' err), w1)
     | Inr parsedURL \<Rightarrow>
        (case readability_Parse E sanitized parsedURL of
           Inl err \<Rightarrow> Some (Inl (Wrapped ''parse content failed'' err), w1)
         | Inr article \<Rightarrow>
            (case RenderHTML E article of
               Inl err \<Rightarrow> Some (Inl (Wrapped ''render failed'' err), w1)
             | Inr content \<Rightarrow>
                if content = [] then Some (Inl ErrInvalid, w1)
                else
                  (let (r, d') = UpdateReadableContent E (repo w1) entryID content;
                       w2 = w1\<lparr>repo := d', trace := trace w1 @ [EvUpdate entryID content]\<rparr>
                   in case r of
                        Some err \<Rightarrow> Some (Inl err, w2)
                      | None \<Rightarrow> Some (Inr content, w2)))))"

text \<open>
  Modelled from the spec: \<^verbatim>\<open>anubis.Solver.SolveFromBody\<close> (package \<^verbatim>\<open>anubis\<close> is not
  among the sources). The specification says that it submits the result to the verification
  endpoint and "returns the newly issued access cookie", and that an empty cookie means no
  cookie (\<^verbatim>\<open>GetCachedCookie\<close> "returns the current valid cookie or empty"). So a solve that
  returns without error returns a non-empty cookie.
\<close>

definition solver_issues_cookie :: "('d, 'n, 'a) env \<Rightarrow> bool" where
  "solver_issues_cookie E =
    (\<forall>a n body u cs c n'. anubis E = Some a \<longrightarrow> SolveFromBody a n body u cs = (Inr c, n') \<longrightarrow> c \<noteq> [])"

text \<open>
  Every GET of the URL, whatever the state of the network and whatever the headers, is
  answered with status 200 and a body that \<^verbatim>\<open>anubis.IsAnubisChallenge\<close> recognises.
\<close>

definition always_challenged :: "('d, 'n, 'a) env \<Rightarrow> string \<Rightarrow> bool" where
  "always_challenged E u =
    (\<forall>n req. Url req = u \<longrightarrow>
       (\<exists>resp n'. session_Do E n req = (Inr resp, n') \<and> StatusCode resp = 200 \<and>
          IsAnubisChallenge E (Body resp)))"

text \<open>
  The request of line 165 with the cookie that lines 156 to 163 chose, the empty string
  standing for no cookie header.
\<close>

definition chrome_request :: "('d, 'n, 'a) env \<Rightarrow> string \<Rightarrow> string \<Rightarrow> request" where
  "chrome_request E u c =
     \<lparr>Method = ''GET'', Url = u,
      OrderedHeaders = chrome_headers (ChromeUserAgent E) @ (if c \<noteq> [] then [(''cookie'', c)] else [])\<rparr>"

section \<open>Collaborators for the examples\<close>

text \<open>
  Concrete collaborators, for the examples that follow the theorems. The repository is an
  association list from entry ids to entries, the state of the network counts the requests
  and solves made, and the article of the readability parser is its HTML.
\<close>

definition challenge_page :: string where
  "challenge_page = ''<html><script id=anubis_challenge></script><p>Making sure you are not a bot</p></html>''"

text \<open>
  \<^verbatim>\<open>url.Parse\<close> at the URLs of the examples: the scheme and host it returns for each of
  them. It rejects \<^verbatim>\<open>192.168.1.1:8080/feed\<close>: the string starts with a digit, so it has
  no scheme, and the first segment of its path holds a colon.
\<close>

definition stub_url_Parse :: "string \<Rightarrow> error + parsed_url" where
  "stub_url_Parse u =
    (if u = ''https://example.org/post'' then Inr \<lparr>Scheme = ''https'', Host = ''example.org''\<rparr>
     else if u = ''ftp://example.org/post'' then Inr \<lparr>Scheme = ''ftp'', Host = ''example.org''\<rparr>
     else if u = ''file:///etc/passwd'' then Inr \<lparr>Scheme = ''file'', Host = []\<rparr>
     else if u = ''example.org/post'' then Inr \<lparr>Scheme = [], Host = []\<rparr>
     else if u = ''192.168.1.1:8080/feed'' then
       Inl (External ''first path segment in URL cannot contain colon'')
     else Inl (External ''parse error''))"

text \<open>A solver whose cache answers every host with the given cookie (empty for none) and
  whose solve always succeeds.\<close>

definition stub_solver :: "string \<Rightarrow> nat solver" where
  "stub_solver cached =
    \<lparr>GetCachedCookie = (\<lambda>n host. (cached, n)),
     SolveFromBody = (\<lambda>n body u cs. (Inr ''anubis-auth=pass'', Suc n))\<rparr>"

text \<open>
  The network answers every request with the given page. The sanitizer and the
  readability parser keep the text as it is. An update of an entry that does not exist
  fails and leaves the repository as it was.
\<close>

definition stub_env :: "string \<Rightarrow> (request \<Rightarrow> response) \<Rightarrow> ((int \<times> entry) list, nat, string) env" where
  "stub_env cached page =
    \<lparr>GetByID = (\<lambda>d i. case map_of d i of None \<Rightarrow> Inl SqlErrNoRows | Some e \<Rightarrow> Inr e),
     UpdateReadableContent = (\<lambda>d i c. case map_of d i of
         None \<Rightarrow> (Some (External ''no such entry''), d)
       | Some e \<Rightarrow> (None, map (\<lambda>(j, x). if j = i then (j, x\<lparr>ReadableContent := Some c\<rparr>) else (j, x)) d)),
     url_Parse = stub_url_Parse,
     session_Do = (\<lambda>n req. (Inr (page req), Suc n)),
     anubis = Some (stub_solver cached),
     IsAnubisChallenge = (\<lambda>b. b = challenge_page),
     Sanitize = (\<lambda>s. s),
     readability_Parse = (\<lambda>s p. Inr s),
     RenderHTML = (\<lambda>a. Inr a),
     ChromeUserAgent = ''Mozilla/5.0''\<rparr>"

text \<open>A repository with the single entry 1, no request made yet, empty trace.\<close>

definition stub_world :: "string option \<Rightarrow> string option \<Rightarrow> ((int \<times> entry) list, nat) world" where
  "stub_world u c = \<lparr>repo = [(1, \<lparr>URL = u, ReadableContent = c\<rparr>)], net = 0, trace = []\<rparr>"

text \<open>Three networks: a challenge page for every request, an article, an empty body.\<close>

definition always_challenge :: "request \<Rightarrow> response" where
  "always_challenge req = \<lparr>StatusCode = 200, Body = challenge_page, Cookies = []\<rparr>"

definition plain_page :: "request \<Rightarrow> response" where
  "plain_page req = \<lparr>StatusCode = 200, Body = ''<article><p>Hello</p></article>'', Cookies = []\<rparr>"

definition empty_page :: "request \<Rightarrow> response" where
  "empty_page req = \<lparr>StatusCode = 200, Body = [], Cookies = []\<rparr>"

text \<open>
  The collaborators with the article network and a repository whose update stores the
  content and then reports an error.
\<close>

definition write_then_fail_env :: "((int \<times> entry) list, nat, string) env" where
  "write_then_fail_env =
    (stub_env [] plain_page)
      \<lparr>UpdateReadableContent := (\<lambda>d i c.
         (Some (External ''context canceled''),
          map (\<lambda>(j, x). if j = i then (j, x\<lparr>ReadableContent := Some c\<rparr>) else (j, x)) d))\<rparr>"

section \<open>Scheduler: data model\<close>

text \<open>
  \<^verbatim>\<open>time.Duration\<close> counts nanoseconds in an \<^verbatim>\<open>int64\<close>; the only arithmetic on it here is
  \<^verbatim>\<open>5*time.Minute\<close>, far from the range limit, so durations are integers.
\<close>

type_synonym duration = int

definition Second :: duration where
  "Second = 1000000000"

definition Minute :: duration where
  "Minute = 60 * Second"

text \<open>The contexts the scheduler builds: \<^verbatim>\<open>context.Background()\<close> and
  \<^verbatim>\<open>context.WithTimeout(parent, d)\<close>.\<close>

datatype "context" = Background | WithTimeout "context" duration

text \<open>
  \<^verbatim>\<open>service.RefreshService\<close>, over its own state \<open>'r\<close>: \<^verbatim>\<open>RefreshAll\<close> returns nil or an
  error, here its message.
\<close>

record 'r refresh_service =
  RefreshAll :: "'r \<Rightarrow> context \<Rightarrow> string option \<times> 'r"

text \<open>The lines the scheduler writes with \<^verbatim>\<open>log\<close>.\<close>

datatype log_line =
    LogStarted duration
  | LogStopped
  | LogRefreshStarting
  | LogRefreshError string
  | LogRefreshCompleted

text \<open>
  Where the goroutine that called \<^verbatim>\<open>Start\<close> and \<^verbatim>\<open>Stop\<close> stands: before \<^verbatim>\<open>Start\<close>,
  after \<^verbatim>\<open>Start\<close> returned, inside \<^verbatim>\<open>Stop\<close> after \<^verbatim>\<open>close(s.stopCh)\<close> and blocked
  in \<^verbatim>\<open>s.wg.Wait()\<close>, and after \<^verbatim>\<open>Stop\<close> returned.
\<close>

datatype caller_pc = Idle | Running | Stopping | Stopped

text \<open>
  Where the goroutine of \<^verbatim>\<open>run\<close> stands: not created, created by \<^verbatim>\<open>go s.run()\<close> and not
  yet running, inside \<^verbatim>\<open>s.refresh()\<close> waiting for \<^verbatim>\<open>RefreshAll\<close>, blocked in the
  \<^verbatim>\<open>select\<close>, returned from \<^verbatim>\<open>run\<close>, or stopped by the panic of \<^verbatim>\<open>time.NewTicker\<close>.
\<close>

datatype loop_pc = NotSpawned | Spawned | InRefresh | Selecting | Returned | Panicked

text \<open>
  The ticker of line 45: not yet created, running (with or without a tick waiting in its
  channel, which holds one tick), or stopped by the deferred \<^verbatim>\<open>ticker.Stop()\<close>.
\<close>

datatype ticker_state = NoTicker | Ticking bool | TickerStopped

text \<open>
  The \<^verbatim>\<open>Scheduler\<close> struct with the state of the two goroutines. \<^verbatim>\<open>stopCh\<close> is only ever
  closed, so it is a flag; \<^verbatim>\<open>wg\<close> is the counter of the \<^verbatim>\<open>sync.WaitGroup\<close>. \<open>calls\<close>
  lists the contexts passed to \<^verbatim>\<open>RefreshAll\<close>, one per cycle started, and \<open>ticks_taken\<close>
  counts the ticks the \<^verbatim>\<open>select\<close> received.
\<close>

record 'r scheduler =
  interval :: duration
  stopCh_closed :: bool
  wg :: int
  caller :: caller_pc
  loop :: loop_pc
  ticker :: ticker_state
  svc :: 'r
  logged :: "log_line list"
  calls :: "context list"
  ticks_taken :: nat

section \<open>Scheduler: operations\<close>

definition New :: "'r \<Rightarrow> duration \<Rightarrow> 'r scheduler" where
  "New refreshService interval' =
    \<lparr>interval = interval', stopCh_closed = False, wg = 0, caller = Idle, loop = NotSpawned,
     ticker = NoTicker, svc = refreshService, logged = [], calls = [], ticks_taken = 0\<rparr>"

text \<open>\<^verbatim>\<open>Start\<close>: \<^verbatim>\<open>s.wg.Add(1)\<close>, \<^verbatim>\<open>go s.run()\<close>, and the log line.\<close>

definition Start :: "'r scheduler \<Rightarrow> 'r scheduler" where
  "Start s = s\<lparr>wg := wg s + 1, loop := Spawned, caller := Running,
               logged := logged s @ [LogStarted (interval s)]\<rparr>"

text \<open>\<^verbatim>\<open>Stop\<close>, first statement: \<^verbatim>\<open>close(s.stopCh)\<close>; the caller then blocks in
  \<^verbatim>\<open>s.wg.Wait()\<close>.\<close>

definition Stop_close :: "'r scheduler \<Rightarrow> 'r scheduler" where
  "Stop_close s = s\<lparr>stopCh_closed := True, caller := Stopping\<rparr>"

text \<open>\<^verbatim>\<open>Stop\<close>, after \<^verbatim>\<open>s.wg.Wait()\<close> returned: the log line, and \<^verbatim>\<open>Stop\<close> returns.\<close>

definition Stop_return :: "'r scheduler \<Rightarrow> 'r scheduler" where
  "Stop_return s = s\<lparr>caller := Stopped, logged := logged s @ [LogStopped]\<rparr>"

text \<open>
  \<^verbatim>\<open>refresh\<close>, lines 59 to 63 up to the call: the context with its timeout, the first log
  line, and \<^verbatim>\<open>RefreshAll\<close> is called with that context.
\<close>

definition refresh_ctx :: "context" where
  "refresh_ctx = WithTimeout Background (5 * Minute)"

definition refresh_enter :: "'r scheduler \<Rightarrow> 'r scheduler" where
  "refresh_enter s = s\<lparr>logged := logged s @ [LogRefreshStarting], calls := calls s @ [refresh_ctx]\<rparr>"

text \<open>
  \<^verbatim>\<open>refresh\<close>, lines 63 to 67 from the return of \<^verbatim>\<open>RefreshAll\<close>: an error is logged, then
  the last log line; \<^verbatim>\<open>refresh\<close> returns nothing.
\<close>

definition refresh_leave :: "'r refresh_service \<Rightarrow> 'r scheduler \<Rightarrow> 'r scheduler" where
  "refresh_leave E s =
    (let (err, r') = RefreshAll E (svc s) refresh_ctx
     in s\<lparr>svc := r',
           logged := logged s @ (case err of Some m \<Rightarrow> [LogRefreshError m] | None \<Rightarrow> [])
                       @ [LogRefreshCompleted]\<rparr>)"

definition refresh :: "'r refresh_service \<Rightarrow> 'r scheduler \<Rightarrow> 'r scheduler" where
  "refresh E s = refresh_leave E (refresh_enter s)"

text \<open>
  \<^verbatim>\<open>run\<close> after a \<^verbatim>\<open>refresh\<close> returned. After the first one (line 43) the ticker is
  created: \<^verbatim>\<open>time.NewTicker\<close> panics when the interval is not positive. Then, and after
  every later \<^verbatim>\<open>refresh\<close>, the loop is at the \<^verbatim>\<open>select\<close>.
\<close>

definition run_after_refresh :: "'r scheduler \<Rightarrow> 'r scheduler" where
  "run_after_refresh s =
    (if ticker s = NoTicker then
       (if interval s \<le> 0 then s\<lparr>loop := Panicked\<rparr>
        else s\<lparr>ticker := Ticking False, loop := Selecting\<rparr>)
     else s\<lparr>loop := Selecting\<rparr>)"

text \<open>\<^verbatim>\<open>case <-ticker.C\<close>: the tick is taken and \<^verbatim>\<open>s.refresh()\<close> is entered.\<close>

definition run_select_tick :: "'r scheduler \<Rightarrow> 'r scheduler" where
  "run_select_tick s =
     refresh_enter (s\<lparr>ticker := Ticking False, ticks_taken := Suc (ticks_taken s), loop := InRefresh\<rparr>)"

text \<open>\<^verbatim>\<open>case <-s.stopCh\<close>: \<^verbatim>\<open>run\<close> returns; the deferred \<^verbatim>\<open>ticker.Stop()\<close> and
  \<^verbatim>\<open>s.wg.Done()\<close> run.\<close>

definition run_select_stop :: "'r scheduler \<Rightarrow> 'r scheduler" where
  "run_select_stop s = s\<lparr>loop := Returned, ticker := TickerStopped, wg := wg s - 1\<rparr>"

text \<open>
  What can happen next. The caller follows the life cycle of the scheduler: \<^verbatim>\<open>Start\<close>
  once, then \<^verbatim>\<open>Stop\<close> once. \<^verbatim>\<open>Wait_Returns\<close> needs the counter of the wait group to be
  zero. A receive needs its channel to be ready: a tick waiting, or \<^verbatim>\<open>stopCh\<close> closed; with
  both ready either case may be taken. \<^verbatim>\<open>Tick\<close> is the runtime putting a tick into the
  channel of a running ticker. After the panic the process is gone and nothing happens.
\<close>

datatype action =
    Call_Start
  | Call_Stop
  | Wait_Returns
  | Run_Begins
  | Refresh_Returns
  | Tick
  | Select_Tick
  | Select_Stop

definition step :: "'r refresh_service \<Rightarrow> action \<Rightarrow> 'r scheduler \<Rightarrow> 'r scheduler option" where
  "step E a s =
    (if loop s = Panicked then None
     else case a of
       Call_Start \<Rightarrow> if caller s = Idle then Some (Start s) else None
     | Call_Stop \<Rightarrow> if caller s = Running then Some (Stop_close s) else None
     | Wait_Returns \<Rightarrow> if caller s = Stopping \<and> wg s = 0 then Some (Stop_return s) else None
     | Run_Begins \<Rightarrow> if loop s = Spawned then Some (refresh_enter (s\<lparr>loop := InRefresh\<rparr>)) else None
     | Refresh_Returns \<Rightarrow>
         if loop s = InRefresh then Some (run_after_refresh (refresh_leave E s)) else None
     | Tick \<Rightarrow> (case ticker s of Ticking b \<Rightarrow> Some (s\<lparr>ticker := Ticking True\<rparr>) | _ \<Rightarrow> None)
     | Select_Tick \<Rightarrow>
         if loop s = Selecting \<and> ticker s = Ticking True then Some (run_select_tick s) else None
     | Select_Stop \<Rightarrow>
         if loop s = Selecting \<and> stopCh_closed s then Some (run_select_stop s) else None)"

text \<open>A run of the system: the actions in order; \<open>None\<close> when one of them cannot happen.\<close>

fun exec :: "'r refresh_service \<Rightarrow> action list \<Rightarrow> 'r scheduler \<Rightarrow> 'r scheduler option" where
  "exec E [] s = Some s"
| "exec E (a # as) s = (case step E a s of None \<Rightarrow> None | Some s' \<Rightarrow> exec E as s')"

text \<open>
  The invariant of the runs: the counter of the wait group is 1 exactly while the goroutine
  of \<^verbatim>\<open>run\<close> exists and has not returned; the stop channel is closed exactly when the
  caller is in or past \<^verbatim>\<open>Stop\<close>; there is no ticker before the first cycle has returned;
  the cycles started are one plus the ticks received; every context passed is the one of
  \<^verbatim>\<open>refresh\<close>.
\<close>

definition sched_inv :: "'r scheduler \<Rightarrow> bool" where
  "sched_inv s =
    (wg s = (if loop s = NotSpawned \<or> loop s = Returned then 0 else 1) \<and>
     (caller s = Idle \<longleftrightarrow> loop s = NotSpawned) \<and>
     (stopCh_closed s \<longleftrightarrow> caller s = Stopping \<or> caller s = Stopped) \<and>
     (loop s = Returned \<longrightarrow> stopCh_closed s) \<and>
     (caller s = Stopped \<longrightarrow> loop s = Returned) \<and>
     (loop s = Panicked \<longrightarrow> interval s \<le> 0) \<and>
     (loop s = NotSpawned \<or> loop s = Spawned \<longrightarrow> ticker s = NoTicker) \<and>
     (loop s = Selecting \<longrightarrow> (\<exists>b. ticker s = Ticking b)) \<and>
     (loop s = Returned \<longleftrightarrow> ticker s = TickerStopped) \<and>
     (ticker s = NoTicker \<longrightarrow> ticks_taken s = 0) \<and>
     length (calls s) = (if loop s = NotSpawned \<or> loop s = Spawned then 0 else 1) + ticks_taken s \<and>
     (\<forall>c\<in>set (calls s). c = refresh_ctx))"

text \<open>A refresh service for the examples: its first call fails, the later ones succeed.\<close>

definition stub_refresh :: "nat refresh_service" where
  "stub_refresh = \<lparr>RefreshAll = (\<lambda>n ctx. (if n = 0 then Some ''feed fetch failed'' else None, Suc n))\<rparr>"

section \<open>Lemmas on fetchWithChrome\<close>

lemma fetchWithChrome_pass:
  "fetchWithChrome E (Suc k) w u c =
     (case fetch_pass E w u c of Done r w' \<Rightarrow> Some (r, w') | Retry c' w' \<Rightarrow> fetchWithChrome E k w' u c')"
  by (simp add: fetch_pass_def Let_def split: sum.splits prod.splits option.splits)

declare fetchWithChrome.simps(2) [simp del]

lemma fetchWithChrome_parse_failure:
  "url_Parse E u = Inl e \<Longrightarrow> fetchWithChrome E (Suc k) w u c = Some (Inl ErrFeedFetch, w)"
  by (simp add: fetchWithChrome.simps)

lemma counts_simps [simp]:
  "count_gets [] = 0" "count_solves [] = 0" "count_updates [] = 0"
  "count_gets (e # evs) = (if is_get e then 1 else 0) + count_gets evs"
  "count_solves (e # evs) = (if is_solve e then 1 else 0) + count_solves evs"
  "count_updates (e # evs) = (if is_update e then 1 else 0) + count_updates evs"
  "count_gets (xs @ ys) = count_gets xs + count_gets ys"
  "count_solves (xs @ ys) = count_solves xs + count_solves ys"
  "count_updates (xs @ ys) = count_updates xs + count_updates ys"
  by (simp_all add: count_gets_def count_solves_def count_updates_def)

lemma add_cookie_events:
  assumes "add_cookie E w h c hs = (hs', w')"
  shows "repo w' = repo w \<and> (\<exists>evs. trace w' = trace w @ evs \<and> count_gets evs = 0 \<and>
           count_solves evs = 0 \<and> count_updates evs = 0 \<and> (c \<noteq> [] \<longrightarrow> evs = []))"
  using assms
  by (auto simp: add_cookie_def Let_def split: if_splits option.splits prod.splits)

lemma fetch_pass_Done:
  assumes "fetch_pass E w u c = Done r w'"
  shows "repo w' = repo w \<and> (\<exists>evs. trace w' = trace w @ evs \<and> count_gets evs \<le> 1 \<and>
           count_solves evs \<le> 1 \<and> (c \<noteq> [] \<longrightarrow> count_solves evs = 0) \<and> count_updates evs = 0)"
proof (cases "url_Parse E u")
  case (Inl e) with assms show ?thesis by (auto simp: fetch_pass_def)
next
  case (Inr p)
  show ?thesis
  proof (cases "Scheme p \<noteq> ''http'' \<and> Scheme p \<noteq> ''https''")
    case True with Inr assms show ?thesis by (auto simp: fetch_pass_def)
  next
    case False
    obtain hs w1 where ac: "add_cookie E w (Host p) c (chrome_headers (ChromeUserAgent E)) = (hs, w1)"
      by (cases "add_cookie E w (Host p) c (chrome_headers (ChromeUserAgent E))")
    from add_cookie_events[OF ac] obtain e1 where w1: "repo w1 = repo w" "trace w1 = trace w @ e1"
      "count_gets e1 = 0" "count_solves e1 = 0" "count_updates e1 = 0" by auto
    from False have sch: "Scheme p = ''http'' \<or> Scheme p = ''https''" by auto
    show ?thesis using assms Inr sch ac w1
      by (auto simp: fetch_pass_def Let_def split: prod.splits sum.splits if_splits option.splits)
  qed
qed

lemma fetch_pass_Retry:
  assumes "fetch_pass E w u c = Retry c' w'"
  shows "c = [] \<and> repo w' = repo w \<and> (\<exists>evs. trace w' = trace w @ evs \<and> count_gets evs = 1 \<and>
           count_solves evs = 1 \<and> count_updates evs = 0) \<and>
         (\<exists>a n b cs n'. anubis E = Some a \<and> SolveFromBody a n b u cs = (Inr c', n'))"
proof (cases "url_Parse E u")
  case (Inl e) with assms show ?thesis by (auto simp: fetch_pass_def)
next
  case (Inr p)
  show ?thesis
  proof (cases "Scheme p \<noteq> ''http'' \<and> Scheme p \<noteq> ''https''")
    case True with Inr assms show ?thesis by (auto simp: fetch_pass_def)
  next
    case False
    obtain hs w1 where ac: "add_cookie E w (Host p) c (chrome_headers (ChromeUserAgent E)) = (hs, w1)"
      by (cases "add_cookie E w (Host p) c (chrome_headers (ChromeUserAgent E))")
    from add_cookie_events[OF ac] obtain e1 where w1: "repo w1 = repo w" "trace w1 = trace w @ e1"
      "count_gets e1 = 0" "count_solves e1 = 0" "count_updates e1 = 0" by auto
    from False have sch: "Scheme p = ''http'' \<or> Scheme p = ''https''" by auto
    show ?thesis using assms Inr sch ac w1
      by (auto simp: fetch_pass_def Let_def split: prod.splits sum.splits if_splits option.splits)
  qed
qed

lemma fetchWithChrome_events:
  "fetchWithChrome E n w u c = Some (r, w') \<Longrightarrow>
     repo w' = repo w \<and> (\<exists>evs. trace w' = trace w @ evs \<and> count_updates evs = 0)"
proof (induction n arbitrary: w c)
  case 0 then show ?case by simp
next
  case (Suc n)
  show ?case
  proof (cases "fetch_pass E w u c")
    case (Done r0 w0)
    with Suc.prems have "r0 = r" "w0 = w'" by (simp_all add: fetchWithChrome_pass)
    with fetch_pass_Done[OF Done] show ?thesis by auto
  next
    case (Retry c1 w1)
    with Suc.prems have rec: "fetchWithChrome E n w1 u c1 = Some (r, w')"
      by (simp add: fetchWithChrome_pass)
    from fetch_pass_Retry[OF Retry] obtain e1 where
      a: "repo w1 = repo w" "trace w1 = trace w @ e1" "count_updates e1 = 0" by auto
    from Suc.IH[OF rec] obtain e2 where
      b: "repo w' = repo w1" "trace w' = trace w1 @ e2" "count_updates e2 = 0" by auto
    from a b show ?thesis by auto
  qed
qed

lemma fetchWithChrome_fuel:
  "fetchWithChrome E n w u c = Some x \<Longrightarrow> fetchWithChrome E (n + m) w u c = Some x"
proof (induction n arbitrary: w c)
  case 0 then show ?case by simp
next
  case (Suc n)
  show ?case
  proof (cases "fetch_pass E w u c")
    case (Done r0 w0)
    with Suc.prems show ?thesis by (simp add: fetchWithChrome_pass)
  next
    case (Retry c1 w1)
    with Suc.prems have "fetchWithChrome E n w1 u c1 = Some x"
      by (simp add: fetchWithChrome_pass)
    from Suc.IH[OF this] show ?thesis using Retry
      by (simp add: fetchWithChrome_pass)
  qed
qed

lemma fetch_pass_shape:
  assumes p: "url_Parse E u = Inr p" "Scheme p = ''http'' \<or> Scheme p = ''https''"
      and ac: "add_cookie E w (Host p) c (chrome_headers (ChromeUserAgent E)) = (hs, w1)"
  shows "(fetch_pass E w u c = Done r w' \<longrightarrow>
            (trace w' = trace w1 @ [EvGet \<lparr>Method = ''GET'', Url = u, OrderedHeaders = hs\<rparr>] \<or>
             (c = [] \<and> (\<exists>b cs. trace w' = trace w1 @ [EvGet \<lparr>Method = ''GET'', Url = u, OrderedHeaders = hs\<rparr>, EvSolve b u cs])))) \<and>
         (fetch_pass E w u c = Retry c' w' \<longrightarrow>
            (c = [] \<and> (\<exists>b cs. trace w' = trace w1 @ [EvGet \<lparr>Method = ''GET'', Url = u, OrderedHeaders = hs\<rparr>, EvSolve b u cs])))"
  using p ac
  by (auto simp: fetch_pass_def Let_def split: prod.splits sum.splits if_splits option.splits)

lemma new_events_append [simp]: "trace w' = trace w @ evs \<Longrightarrow> new_events w w' = evs"
  by (simp add: new_events_def)

lemma fetch_pass_Retry_solved:
  assumes p: "url_Parse E u = Inr p" "Scheme p = ''http'' \<or> Scheme p = ''https''"
      and ac: "add_cookie E w (Host p) c (chrome_headers (ChromeUserAgent E)) = (hs, w1)"
      and r: "fetch_pass E w u c = Retry c' w'"
  shows "\<exists>b cs a n n'. trace w' = trace w1 @ [EvGet \<lparr>Method = ''GET'', Url = u, OrderedHeaders = hs\<rparr>, EvSolve b u cs] \<and>
           anubis E = Some a \<and> SolveFromBody a n b u cs = (Inr c', n')"
  using p ac r
  apply (auto simp: fetch_pass_def Let_def split: prod.splits sum.splits if_splits option.splits)
   apply blast+
  done

lemma fetch_pass_Retry_shape:
  assumes "fetch_pass E w u c = Retry c' w'"
  shows "c = [] \<and> (\<exists>p. url_Parse E u = Inr p \<and> (Scheme p = ''http'' \<or> Scheme p = ''https'')) \<and>
         repo w' = repo w \<and>
         (\<exists>pre b cs a n n'. trace w' = trace w @ pre @ [EvSolve b u cs] \<and> count_gets pre = 1 \<and>
            count_solves pre = 0 \<and> count_updates pre = 0 \<and>
            anubis E = Some a \<and> SolveFromBody a n b u cs = (Inr c', n'))"
proof (cases "url_Parse E u")
  case (Inl e) with assms show ?thesis by (auto simp: fetch_pass_def)
next
  case (Inr p)
  show ?thesis
  proof (cases "Scheme p \<noteq> ''http'' \<and> Scheme p \<noteq> ''https''")
    case True with Inr assms show ?thesis by (auto simp: fetch_pass_def)
  next
    case False
    obtain hs w1 where ac: "add_cookie E w (Host p) c (chrome_headers (ChromeUserAgent E)) = (hs, w1)"
      by (cases "add_cookie E w (Host p) c (chrome_headers (ChromeUserAgent E))")
    from add_cookie_events[OF ac] obtain e1 where w1: "repo w1 = repo w" "trace w1 = trace w @ e1"
      "count_gets e1 = 0" "count_solves e1 = 0" "count_updates e1 = 0" by auto
    from False have sch: "Scheme p = ''http'' \<or> Scheme p = ''https''" by auto
    let ?g = "EvGet \<lparr>Method = ''GET'', Url = u, OrderedHeaders = hs\<rparr>"
    from fetch_pass_Retry_solved[OF Inr sch ac assms] obtain b cs a n n' where
      s: "trace w' = trace w1 @ [?g, EvSolve b u cs]" "anubis E = Some a"
         "SolveFromBody a n b u cs = (Inr c', n')" by blast
    have t: "trace w' = trace w @ (e1 @ [?g]) @ [EvSolve b u cs]" using s w1 by simp
    have cnt: "count_gets (e1 @ [?g]) = 1" "count_solves (e1 @ [?g]) = 0" "count_updates (e1 @ [?g]) = 0"
      using w1 by simp_all
    from fetch_pass_Retry[OF assms] have c: "c = []" "repo w' = repo w" by auto
    from c Inr sch t cnt s(2,3) show ?thesis by blast
  qed
qed

lemma fetch_pass_with_cookie:
  assumes "url_Parse E u = Inr p" "Scheme p = ''http'' \<or> Scheme p = ''https''" "c \<noteq> []"
  shows "\<exists>r n'. fetch_pass E w u c =
           Done r (w\<lparr>net := n', trace := trace w @
             [EvGet \<lparr>Method = ''GET'', Url = u,
                OrderedHeaders = chrome_headers (ChromeUserAgent E) @ [(''cookie'', c)]\<rparr>]\<rparr>)"
  using assms
  by (auto simp: fetch_pass_def add_cookie_def Let_def split: prod.splits sum.splits if_splits option.splits)

lemma fetch_pass_Done_shape:
  assumes "fetch_pass E w u c = Done r w'"
  shows "\<exists>evs. trace w' = trace w @ evs \<and> count_gets evs \<le> 1 \<and>
           (c \<noteq> [] \<longrightarrow> count_solves evs = 0) \<and>
           (count_solves evs = 0 \<or>
            (\<exists>pre b cs. evs = pre @ [EvSolve b u cs] \<and> count_solves pre = 0 \<and> count_gets pre = 1))"
proof (cases "url_Parse E u")
  case (Inl e) with assms show ?thesis by (auto simp: fetch_pass_def)
next
  case (Inr p)
  show ?thesis
  proof (cases "Scheme p \<noteq> ''http'' \<and> Scheme p \<noteq> ''https''")
    case True with Inr assms show ?thesis by (auto simp: fetch_pass_def)
  next
    case False
    obtain hs w1 where ac: "add_cookie E w (Host p) c (chrome_headers (ChromeUserAgent E)) = (hs, w1)"
      by (cases "add_cookie E w (Host p) c (chrome_headers (ChromeUserAgent E))")
    from add_cookie_events[OF ac] obtain e1 where w1: "trace w1 = trace w @ e1"
      "count_gets e1 = 0" "count_solves e1 = 0" by auto
    from False have sch: "Scheme p = ''http'' \<or> Scheme p = ''https''" by auto
    let ?g = "EvGet \<lparr>Method = ''GET'', Url = u, OrderedHeaders = hs\<rparr>"
    from fetch_pass_shape[OF Inr sch ac, where r=r and w'=w'] assms
    consider (plain) "trace w' = trace w1 @ [?g]"
      | (solve) b cs where "c = []" "trace w' = trace w1 @ [?g, EvSolve b u cs]" by auto
    then show ?thesis
    proof cases
      case plain
      then have "trace w' = trace w @ (e1 @ [?g])" using w1 by simp
      moreover have "count_gets (e1 @ [?g]) \<le> 1" "count_solves (e1 @ [?g]) = 0" using w1 by simp_all
      ultimately show ?thesis by blast
    next
      case solve
      then have t: "trace w' = trace w @ ((e1 @ [?g]) @ [EvSolve b u cs])" using w1 by simp
      have "count_gets ((e1 @ [?g]) @ [EvSolve b u cs]) \<le> 1" using w1 by simp
      moreover have "count_solves (e1 @ [?g]) = 0" "count_gets (e1 @ [?g]) = 1" using w1 by simp_all
      ultimately show ?thesis using t solve(1) by blast
    qed
  qed
qed

lemma add_cookie_given: "c \<noteq> [] \<Longrightarrow> add_cookie E w h c hs = (hs @ [(''cookie'', c)], w)"
  by (simp add: add_cookie_def)

lemma add_cookie_no_solver: "anubis E = None \<Longrightarrow> add_cookie E w h [] hs = (hs, w)"
  by (simp add: add_cookie_def)

lemma add_cookie_cached:
  "anubis E = Some a \<Longrightarrow>
   add_cookie E w h [] hs =
     (if fst (GetCachedCookie a (net w) h) \<noteq> [] then hs @ [(''cookie'', fst (GetCachedCookie a (net w) h))] else hs,
      w\<lparr>net := snd (GetCachedCookie a (net w) h), trace := trace w @ [EvCacheLookup h]\<rparr>)"
  by (simp add: add_cookie_def Let_def split: prod.splits)

lemma fetch_pass_Done_no_solver:
  assumes "fetch_pass E w u c = Done r w'" "c \<noteq> [] \<or> anubis E = None"
      and p: "url_Parse E u = Inr p" "Scheme p = ''http'' \<or> Scheme p = ''https''"
      and ac: "add_cookie E w (Host p) c (chrome_headers (ChromeUserAgent E)) = (hs, w1)"
  shows "trace w' = trace w1 @ [EvGet \<lparr>Method = ''GET'', Url = u, OrderedHeaders = hs\<rparr>]"
  using assms
  by (auto simp: fetch_pass_def Let_def split: prod.splits sum.splits if_splits option.splits)

lemma fetch_pass_not_Retry:
  assumes "c \<noteq> [] \<or> anubis E = None"
  shows "fetch_pass E w u c \<noteq> Retry c' w'"
  using assms
  by (auto simp: fetch_pass_def Let_def split: prod.splits sum.splits if_splits option.splits)

lemma fetchWithChrome_first_get:
  assumes p: "url_Parse E u = Inr p" "Scheme p = ''http'' \<or> Scheme p = ''https''"
      and ac: "add_cookie E w (Host p) c (chrome_headers (ChromeUserAgent E)) = (hs, w1)"
      and f: "fetchWithChrome E n w u c = Some (r, w')"
  shows "\<exists>rest. trace w' = trace w1 @ EvGet \<lparr>Method = ''GET'', Url = u, OrderedHeaders = hs\<rparr> # rest \<and>
           (c \<noteq> [] \<or> anubis E = None \<longrightarrow> rest = [])"
proof (cases n)
  case 0 with f show ?thesis by simp
next
  case (Suc k)
  let ?g = "EvGet \<lparr>Method = ''GET'', Url = u, OrderedHeaders = hs\<rparr>"
  show ?thesis
  proof (cases "fetch_pass E w u c")
    case (Done r0 w0)
    with f Suc have eq: "r0 = r" "w0 = w'" by (simp_all add: fetchWithChrome_pass)
    from fetch_pass_shape[OF p ac, where r=r and w'=w'] Done eq
    have "trace w' = trace w1 @ [?g] \<or> (c = [] \<and> (\<exists>b cs. trace w' = trace w1 @ [?g, EvSolve b u cs]))"
      by simp
    moreover have "c \<noteq> [] \<or> anubis E = None \<Longrightarrow> trace w' = trace w1 @ [?g]"
      using fetch_pass_Done_no_solver[OF _ _ p ac] Done eq by simp
    ultimately show ?thesis by auto
  next
    case (Retry c1 w2)
    with f Suc have rec: "fetchWithChrome E k w2 u c1 = Some (r, w')" by (simp add: fetchWithChrome_pass)
    from fetchWithChrome_events[OF rec] obtain e2 where e2: "trace w' = trace w2 @ e2" by auto
    from fetch_pass_shape[OF p ac, where c'=c1 and w'=w2] Retry obtain b cs where
      "trace w2 = trace w1 @ [?g, EvSolve b u cs]" by auto
    with e2 have "trace w' = trace w1 @ ?g # (EvSolve b u cs # e2)" by simp
    moreover have "\<not> (c \<noteq> [] \<or> anubis E = None)" using fetch_pass_not_Retry Retry by blast
    ultimately show ?thesis by (intro exI[of _ "EvSolve b u cs # e2"]) simp
  qed
qed

lemma FetchReadableContent_fetch:
  assumes "GetByID E (repo w) entryID = Inr e" "needs_fetch e u"
  shows "FetchReadableContent E fuel w entryID =
     (case fetchWithChrome E fuel w u [] of
        None \<Rightarrow> None
      | Some (Inl err, w1) \<Rightarrow> Some (Inl err, w1)
      | Some (Inr body, w1) \<Rightarrow> extract_and_store E w1 entryID u body)"
  using assms
  by (auto simp: FetchReadableContent_def extract_and_store_def needs_fetch_def Let_def
      split: option.splits sum.splits prod.splits)

lemma FetchReadableContent_no_fetch:
  assumes "FetchReadableContent E fuel w entryID = Some (r, w')"
      and "\<not> (\<exists>e u. GetByID E (repo w) entryID = Inr e \<and> needs_fetch e u)"
  shows "w' = w"
  using assms
  by (auto simp: FetchReadableContent_def needs_fetch_def split: sum.splits if_splits)

lemma extract_and_store_cases:
  assumes "extract_and_store E w1 entryID u body = Some (r, w2)"
  shows "(w2 = w1 \<and> (\<exists>err. r = Inl err)) \<or>
         (\<exists>p art c res d'. url_Parse E u = Inr p \<and> readability_Parse E (Sanitize E body) p = Inr art \<and>
            RenderHTML E art = Inr c \<and> c \<noteq> [] \<and>
            UpdateReadableContent E (repo w1) entryID c = (res, d') \<and>
            w2 = w1\<lparr>repo := d', trace := trace w1 @ [EvUpdate entryID c]\<rparr> \<and>
            r = (case res of Some err \<Rightarrow> Inl err | None \<Rightarrow> Inr c))"
  using assms
  by (auto simp: extract_and_store_def Let_def split: sum.splits if_splits prod.splits option.splits)

lemma extract_and_store_empty:
  assumes "url_Parse E u = Inr p" "readability_Parse E (Sanitize E body) p = Inr art" "RenderHTML E art = Inr []"
  shows "extract_and_store E w1 entryID u body = Some (Inl ErrInvalid, w1)"
  using assms by (simp add: extract_and_store_def)

lemma needs_fetch_unique: "needs_fetch e u \<Longrightarrow> needs_fetch e u' \<Longrightarrow> u' = u"
  by (simp add: needs_fetch_def)

lemma always_challengedD:
  "always_challenged E u \<Longrightarrow> Url req = u \<Longrightarrow>
     \<exists>resp n'. session_Do E n req = (Inr resp, n') \<and> StatusCode resp = 200 \<and> IsAnubisChallenge E (Body resp)"
  by (simp add: always_challenged_def)

lemma extract_and_store_events:
  assumes "extract_and_store E w1 entryID u body = Some (r, w2)"
  shows "\<exists>evs. trace w2 = trace w1 @ evs \<and> count_gets evs = 0 \<and> count_solves evs = 0 \<and> count_updates evs \<le> 1"
  using extract_and_store_cases[OF assms] by auto

lemma extract_and_store_total: "\<exists>r w2. extract_and_store E w1 entryID u body = Some (r, w2)"
  by (auto simp: extract_and_store_def Let_def split: sum.splits prod.splits option.splits)

lemma Url_chrome_request [simp]: "Url (chrome_request E u c) = u"
  by (simp add: chrome_request_def)

lemma add_cookie_lookup:
  assumes "anubis E = Some a" "GetCachedCookie a (net w) h = (cc, n1)"
  shows "add_cookie E w h [] (chrome_headers (ChromeUserAgent E)) =
           (OrderedHeaders (chrome_request E u cc), w\<lparr>net := n1, trace := trace w @ [EvCacheLookup h]\<rparr>)"
  using assms by (simp add: add_cookie_def chrome_request_def)

lemma request_eq: "\<lparr>Method = ''GET'', Url = u, OrderedHeaders = OrderedHeaders (chrome_request E u c)\<rparr> = chrome_request E u c"
  by (simp add: chrome_request_def)

lemma get_with_cookie_request: "c \<noteq> [] \<Longrightarrow> get_with_cookie E u c = EvGet (chrome_request E u c)"
  by (simp add: get_with_cookie_def chrome_request_def)

lemma get_plain_request: "get_plain E u = EvGet (chrome_request E u [])"
  by (simp add: get_plain_def chrome_request_def)

section \<open>Lemmas on the scheduler\<close>

lemmas sched_defs = Start_def Stop_close_def Stop_return_def refresh_enter_def
  run_after_refresh_def run_select_tick_def run_select_stop_def

lemma sched_inv_New: "sched_inv (New r i)"
  by (simp add: sched_inv_def New_def)

lemma step_cases:
  assumes "step E a s = Some s'"
  obtains (start) "a = Call_Start" "caller s = Idle" "s' = Start s" "loop s \<noteq> Panicked"
    | (stop) "a = Call_Stop" "caller s = Running" "s' = Stop_close s" "loop s \<noteq> Panicked"
    | (wait) "a = Wait_Returns" "caller s = Stopping" "wg s = 0" "s' = Stop_return s" "loop s \<noteq> Panicked"
    | (run_begins) "a = Run_Begins" "loop s = Spawned" "s' = refresh_enter (s\<lparr>loop := InRefresh\<rparr>)"
    | (refresh_returns) "a = Refresh_Returns" "loop s = InRefresh" "s' = run_after_refresh (refresh_leave E s)"
    | (tick) b where "a = Tick" "ticker s = Ticking b" "s' = s\<lparr>ticker := Ticking True\<rparr>" "loop s \<noteq> Panicked"
    | (sel_tick) "a = Select_Tick" "loop s = Selecting" "ticker s = Ticking True" "s' = run_select_tick s"
    | (sel_stop) "a = Select_Stop" "loop s = Selecting" "stopCh_closed s" "s' = run_select_stop s"
  using assms
  by (cases a) (auto simp: step_def split: if_splits ticker_state.splits)

lemma refresh_leave_fields [simp]:
  "interval (refresh_leave E s) = interval s" "stopCh_closed (refresh_leave E s) = stopCh_closed s"
  "wg (refresh_leave E s) = wg s" "caller (refresh_leave E s) = caller s" "loop (refresh_leave E s) = loop s"
  "ticker (refresh_leave E s) = ticker s" "calls (refresh_leave E s) = calls s"
  "ticks_taken (refresh_leave E s) = ticks_taken s"
  by (simp_all add: refresh_leave_def Let_def split: prod.splits)

lemma sched_inv_step:
  assumes i: "sched_inv s" and st: "step E a s = Some s'"
  shows "sched_inv s'"
  using st
proof (cases rule: step_cases)
  case start with i show ?thesis by (simp add: sched_inv_def Start_def)
next
  case stop with i show ?thesis by (auto simp: sched_inv_def Stop_close_def)
next
  case wait with i show ?thesis by (auto simp: sched_inv_def Stop_return_def split: if_splits)
next
  case run_begins with i show ?thesis by (simp add: sched_inv_def refresh_enter_def)
next
  case refresh_returns with i show ?thesis
    by (cases "ticker s") (auto simp: sched_inv_def run_after_refresh_def)
next
  case (tick b) with i show ?thesis by (auto simp: sched_inv_def)
next
  case sel_tick with i show ?thesis by (simp add: sched_inv_def run_select_tick_def refresh_enter_def)
next
  case sel_stop with i show ?thesis by (auto simp: sched_inv_def run_select_stop_def)
qed

lemma interval_step: "step E a s = Some s' \<Longrightarrow> interval s' = interval s"
  by (erule step_cases) (simp_all add: sched_defs)

lemma sched_inv_exec:
  "sched_inv s \<Longrightarrow> exec E acts s = Some s' \<Longrightarrow> sched_inv s'"
  by (induction acts arbitrary: s) (auto split: option.splits dest: sched_inv_step)

lemma interval_exec: "exec E acts s = Some s' \<Longrightarrow> interval s' = interval s"
  by (induction acts arbitrary: s) (auto split: option.splits dest: interval_step)

lemma stopped_step:
  assumes "caller s = Stopped" "loop s = Returned" "ticker s = TickerStopped" "step E a s = Some s'"
  shows "s' = s"
  using assms(4,1,2,3) by (cases rule: step_cases) (simp_all add: sched_defs)

lemma stopped_exec:
  "caller s = Stopped \<Longrightarrow> loop s = Returned \<Longrightarrow> ticker s = TickerStopped \<Longrightarrow>
   exec E acts s = Some s' \<Longrightarrow> s' = s"
proof (induction acts arbitrary: s)
  case Nil then show ?case by simp
next
  case (Cons a acts)
  from Cons.prems(4) obtain s1 where s1: "step E a s = Some s1" "exec E acts s1 = Some s'"
    by (auto split: option.splits)
  from stopped_step[OF Cons.prems(1,2,3) s1(1)] have "s1 = s" .
  with Cons.IH[OF Cons.prems(1,2,3)] s1(2) show ?case by simp
qed

lemmas exec_eval = step_def New_def Start_def Stop_close_def Stop_return_def refresh_enter_def
  refresh_leave_def run_after_refresh_def run_select_tick_def run_select_stop_def stub_refresh_def
  refresh_ctx_def Minute_def Second_def

text \<open>A cycle as two steps of a run is \<^verbatim>\<open>refresh\<close> as one function.\<close>

lemma cycle_is_refresh:
  "loop s = Spawned \<Longrightarrow>
   exec E [Run_Begins, Refresh_Returns] s = Some (run_after_refresh (refresh E (s\<lparr>loop := InRefresh\<rparr>)))"
  by (simp add: step_def refresh_def refresh_enter_def)

section \<open>Claims on the readability service\<close>

text \<open>
  C2. For every entry whose stored readable content is non-empty, \<^verbatim>\<open>FetchReadableContent\<close>
  returns the stored value unchanged and leaves the world as it was: no event is added to
  the trace (no cache lookup, no GET, no solve, no write), the repository and the network
  state are the same. A second call, from the world the first one left, returns the same
  value again. So a later fetch never overwrites readable content that is non-empty.
\<close>

theorem FetchReadableContent_cached:
  assumes "GetByID E (repo w) entryID = Inr e"
      and "ReadableContent e = Some c"
      and "c \<noteq> []"
  shows "FetchReadableContent E fuel w entryID = Some (Inr c, w) \<and>
         new_events w w = [] \<and>
         (\<forall>r w'. FetchReadableContent E fuel w entryID = Some (r, w') \<longrightarrow>
            repo w' = repo w \<and> trace w' = trace w \<and>
            FetchReadableContent E fuel' w' entryID = Some (Inr c, w'))"
  using assms by (simp add: FetchReadableContent_def new_events_def)

theorem FetchReadableContent_cached_witness:
  "FetchReadableContent (stub_env [] always_challenge) 0
     (stub_world (Some ''https://example.org/post'') (Some ''<p>old</p>'')) 1 =
   Some (Inr ''<p>old</p>'', stub_world (Some ''https://example.org/post'') (Some ''<p>old</p>''))"
proof -
  let ?E = "stub_env [] always_challenge"
  let ?w = "stub_world (Some ''https://example.org/post'') (Some ''<p>old</p>'')"
  have a: "GetByID ?E (repo ?w) 1 =
      Inr \<lparr>URL = Some ''https://example.org/post'', ReadableContent = Some ''<p>old</p>''\<rparr>"
    by (simp add: stub_env_def stub_world_def)
  have b: "ReadableContent \<lparr>URL = Some ''https://example.org/post'', ReadableContent = Some ''<p>old</p>''\<rparr>
      = Some ''<p>old</p>''"
    by simp
  have c: "''<p>old</p>'' \<noteq> []" by simp
  from FetchReadableContent_cached [OF a b c, of 0] show ?thesis by simp
qed

text \<open>
  C3, as amended. \<^verbatim>\<open>fetchWithChrome\<close> fails before any network I/O in two ways, for every
  cookie argument and every positive depth bound. For a URL that \<^verbatim>\<open>url.Parse\<close> accepts
  with a scheme other than \<^verbatim>\<open>http\<close> and \<^verbatim>\<open>https\<close> (\<^verbatim>\<open>file\<close>, \<^verbatim>\<open>ftp\<close>, the empty
  scheme of a scheme-less URL, any other) it fails with \<^verbatim>\<open>ErrInvalid\<close>. For a URL that
  \<^verbatim>\<open>url.Parse\<close> rejects it fails with \<^verbatim>\<open>ErrFeedFetch\<close> (lines 126 to 129), whatever
  scheme the string was written with. In both cases it returns the world it was given: the
  trace has no new event and the network state is untouched.
\<close>

theorem fetchWithChrome_fails_before_io:
  "(\<forall>p. url_Parse E targetURL = Inr p \<longrightarrow> Scheme p \<noteq> ''http'' \<longrightarrow> Scheme p \<noteq> ''https'' \<longrightarrow>
      fetchWithChrome E (Suc k) w targetURL cookie = Some (Inl ErrInvalid, w)) \<and>
   (\<forall>err. url_Parse E targetURL = Inl err \<longrightarrow>
      fetchWithChrome E (Suc k) w targetURL cookie = Some (Inl ErrFeedFetch, w))"
  by (simp add: fetchWithChrome.simps)

theorem fetchWithChrome_fails_before_io_witness:
  "fetchWithChrome (stub_env [] always_challenge) (Suc 0) (stub_world None None) ''ftp://example.org/post'' []
     = Some (Inl ErrInvalid, stub_world None None)
   \<and> fetchWithChrome (stub_env [] always_challenge) (Suc 0) (stub_world None None) ''file:///etc/passwd'' []
     = Some (Inl ErrInvalid, stub_world None None)
   \<and> fetchWithChrome (stub_env [] always_challenge) (Suc 0) (stub_world None None) ''example.org/post'' []
     = Some (Inl ErrInvalid, stub_world None None)
   \<and> fetchWithChrome (stub_env [] always_challenge) (Suc 0) (stub_world None None) ''192.168.1.1:8080/feed'' []
     = Some (Inl ErrFeedFetch, stub_world None None)"
proof -
  let ?E = "stub_env [] always_challenge"
  let ?w = "stub_world None None"
  have a: "url_Parse ?E ''ftp://example.org/post'' = Inr \<lparr>Scheme = ''ftp'', Host = ''example.org''\<rparr>"
    by (simp add: stub_env_def stub_url_Parse_def)
  have b: "url_Parse ?E ''file:///etc/passwd'' = Inr \<lparr>Scheme = ''file'', Host = []\<rparr>"
    by (simp add: stub_env_def stub_url_Parse_def)
  have c: "url_Parse ?E ''example.org/post'' = Inr \<lparr>Scheme = [], Host = []\<rparr>"
    by (simp add: stub_env_def stub_url_Parse_def)
  have d: "url_Parse ?E ''192.168.1.1:8080/feed'' =
      Inl (External ''first path segment in URL cannot contain colon'')"
    by (simp add: stub_env_def stub_url_Parse_def)
  from fetchWithChrome_fails_before_io [of ?E "''ftp://example.org/post''" 0 ?w "[]"] a
  have 1: "fetchWithChrome ?E (Suc 0) ?w ''ftp://example.org/post'' [] = Some (Inl ErrInvalid, ?w)"
    by simp
  from fetchWithChrome_fails_before_io [of ?E "''file:///etc/passwd''" 0 ?w "[]"] b
  have 2: "fetchWithChrome ?E (Suc 0) ?w ''file:///etc/passwd'' [] = Some (Inl ErrInvalid, ?w)"
    by simp
  from fetchWithChrome_fails_before_io [of ?E "''example.org/post''" 0 ?w "[]"] c
  have 3: "fetchWithChrome ?E (Suc 0) ?w ''example.org/post'' [] = Some (Inl ErrInvalid, ?w)"
    by simp
  from fetchWithChrome_fails_before_io [of ?E "''192.168.1.1:8080/feed''" 0 ?w "[]"] d
  have 4: "fetchWithChrome ?E (Suc 0) ?w ''192.168.1.1:8080/feed'' [] = Some (Inl ErrFeedFetch, ?w)"
    by simp
  from 1 2 3 4 show ?thesis by simp
qed

text \<open>
  The statement of the specification (\<^verbatim>\<open>InvalidInput\<close> for every URL whose scheme is not
  http or https, scheme-less ones included) does not hold for the scheme-less
  \<^verbatim>\<open>192.168.1.1:8080/feed\<close>: \<^verbatim>\<open>url.Parse\<close> rejects it, and the call fails with
  \<^verbatim>\<open>ErrFeedFetch\<close>, not with \<^verbatim>\<open>ErrInvalid\<close>.
\<close>

theorem scheme_less_url_gives_ErrFeedFetch:
  "fetchWithChrome (stub_env [] always_challenge) (Suc 0) (stub_world None None) ''192.168.1.1:8080/feed'' []
     = Some (Inl ErrFeedFetch, stub_world None None) \<and>
   fetchWithChrome (stub_env [] always_challenge) (Suc 0) (stub_world None None) ''192.168.1.1:8080/feed'' []
     \<noteq> Some (Inl ErrInvalid, stub_world None None)"
  by (simp add: fetchWithChrome.simps stub_env_def stub_url_Parse_def)

text \<open>
  C10. Provided a successful \<^verbatim>\<open>SolveFromBody\<close> returns a non-empty cookie,
  \<^verbatim>\<open>fetchWithChrome\<close> returns with a depth of calls of at most two: depth bound 2 gives a
  result, and every larger bound gives the same one. The call adds at most one solve and
  at most two GETs to the trace. With a non-empty cookie argument depth 1 is enough and
  there is no solve at all. When a solve happens it comes after exactly one GET, and it is
  either the last event (the solve failed) or it is followed by exactly one GET, which
  carries the non-empty cookie that \<^verbatim>\<open>SolveFromBody\<close> returned.
\<close>

theorem fetchWithChrome_depth_two:
  assumes "solver_issues_cookie E"
  shows "\<exists>r w'. fetchWithChrome E 2 w u c = Some (r, w') \<and>
           (\<forall>k. fetchWithChrome E (2 + k) w u c = Some (r, w')) \<and>
           count_solves (new_events w w') \<le> 1 \<and> count_gets (new_events w w') \<le> 2 \<and>
           (c \<noteq> [] \<longrightarrow> fetchWithChrome E 1 w u c = Some (r, w') \<and> count_solves (new_events w w') = 0) \<and>
           (count_solves (new_events w w') = 0 \<or>
            (\<exists>pre b cs. count_solves pre = 0 \<and> count_gets pre = 1 \<and>
               (new_events w w' = pre @ [EvSolve b u cs] \<or>
                (\<exists>a n n' c'. anubis E = Some a \<and> SolveFromBody a n b u cs = (Inr c', n') \<and> c' \<noteq> [] \<and>
                   new_events w w' = pre @ [EvSolve b u cs, get_with_cookie E u c']))))"
proof (cases "fetch_pass E w u c")
  case (Done r0 w0)
  from fetch_pass_Done_shape[OF Done] obtain evs where
    e: "trace w0 = trace w @ evs" "count_gets evs \<le> 1" "c \<noteq> [] \<longrightarrow> count_solves evs = 0"
       "count_solves evs = 0 \<or>
        (\<exists>pre b cs. evs = pre @ [EvSolve b u cs] \<and> count_solves pre = 0 \<and> count_gets pre = 1)"
    by blast
  have f: "\<And>k. fetchWithChrome E (Suc k) w u c = Some (r0, w0)"
    using Done by (simp add: fetchWithChrome_pass)
  have ne: "new_events w w0 = evs" using e(1) by simp
  have s1: "count_solves evs \<le> 1" using e(4) by auto
  have a: "fetchWithChrome E 2 w u c = Some (r0, w0)"
    using f[of 1] by (simp add: numeral_2_eq_2)
  have b: "\<forall>k. fetchWithChrome E (2 + k) w u c = Some (r0, w0)"
    using f by (simp add: numeral_2_eq_2)
  have c: "c \<noteq> [] \<longrightarrow> fetchWithChrome E 1 w u c = Some (r0, w0) \<and> count_solves (new_events w w0) = 0"
    using f[of 0] e(3) ne by simp
  have d: "count_solves (new_events w w0) = 0 \<or>
            (\<exists>pre b cs. count_solves pre = 0 \<and> count_gets pre = 1 \<and>
               (new_events w w0 = pre @ [EvSolve b u cs] \<or>
                (\<exists>a n n' c'. anubis E = Some a \<and> SolveFromBody a n b u cs = (Inr c', n') \<and> c' \<noteq> [] \<and>
                   new_events w w0 = pre @ [EvSolve b u cs, get_with_cookie E u c'])))"
    using e(4) unfolding ne by blast
  from a b c d s1 e(2) ne show ?thesis by (intro exI[of _ r0] exI[of _ w0]) simp
next
  case (Retry c1 w1)
  from fetch_pass_Retry_shape[OF Retry] obtain p pre b cs a n n' where
    r: "c = []" "url_Parse E u = Inr p" "Scheme p = ''http'' \<or> Scheme p = ''https''"
       "trace w1 = trace w @ pre @ [EvSolve b u cs]" "count_gets pre = 1" "count_solves pre = 0"
       "anubis E = Some a" "SolveFromBody a n b u cs = (Inr c1, n')" by blast
  with assms have c1: "c1 \<noteq> []" unfolding solver_issues_cookie_def by blast
  from fetch_pass_with_cookie[OF r(2) r(3) c1, of w1] obtain r2 n2 where
    p2: "fetch_pass E w1 u c1 = Done r2 (w1\<lparr>net := n2, trace := trace w1 @ [get_with_cookie E u c1]\<rparr>)"
    unfolding get_with_cookie_def by blast
  let ?w2 = "w1\<lparr>net := n2, trace := trace w1 @ [get_with_cookie E u c1]\<rparr>"
  have f: "\<And>k. fetchWithChrome E (Suc (Suc k)) w u c = Some (r2, ?w2)"
    using Retry p2 by (simp add: fetchWithChrome_pass)
  have t: "trace ?w2 = trace w @ (pre @ [EvSolve b u cs, get_with_cookie E u c1])" using r(4) by simp
  have ne: "new_events w ?w2 = pre @ [EvSolve b u cs, get_with_cookie E u c1]"
    using new_events_append[OF t] .
  have a: "fetchWithChrome E 2 w u c = Some (r2, ?w2)"
    using f[of 0] by (simp add: numeral_2_eq_2)
  have b': "\<forall>k. fetchWithChrome E (2 + k) w u c = Some (r2, ?w2)"
    using f by (simp add: numeral_2_eq_2)
  have cs: "count_solves (new_events w ?w2) \<le> 1" "count_gets (new_events w ?w2) \<le> 2"
    unfolding ne using r(5,6) by (simp_all add: get_with_cookie_def)
  have d: "\<exists>pre b cs. count_solves pre = 0 \<and> count_gets pre = 1 \<and>
               (new_events w ?w2 = pre @ [EvSolve b u cs] \<or>
                (\<exists>a n n' c'. anubis E = Some a \<and> SolveFromBody a n b u cs = (Inr c', n') \<and> c' \<noteq> [] \<and>
                   new_events w ?w2 = pre @ [EvSolve b u cs, get_with_cookie E u c']))"
    unfolding ne using r(5,6,7,8) c1 by blast
  from a b' cs d r(1) show ?thesis by (intro exI[of _ r2] exI[of _ ?w2]) simp
qed

theorem fetchWithChrome_depth_two_witness:
  "(\<exists>r w'. fetchWithChrome (stub_env [] always_challenge) 2 (stub_world None None) ''https://example.org/post'' [] = Some (r, w') \<and>
      count_solves (new_events (stub_world None None) w') \<le> 1 \<and>
      count_gets (new_events (stub_world None None) w') \<le> 2)"
proof -
  have h: "solver_issues_cookie (stub_env [] always_challenge)"
    by (simp add: solver_issues_cookie_def stub_env_def stub_solver_def)
  from fetchWithChrome_depth_two [OF h, of "stub_world None None" "''https://example.org/post''" "[]"]
  show ?thesis by blast
qed

text \<open>
  C8. For a URL that passes the scheme check, the events of a call of \<^verbatim>\<open>fetchWithChrome\<close>
  that returns show the cookie precedence. With a non-empty cookie argument the only
  event is one GET whose headers are the fixed ones followed by that cookie: the cache is
  not consulted. With an empty argument and a solver, the cache is asked for the host of
  the URL, and the GET that follows carries the cached cookie when it is non-empty and no
  cookie header when it is empty. With an empty argument and no solver there is one GET
  without cookie header. The fixed headers contain no cookie header.
\<close>

theorem cookie_precedence:
  assumes "url_Parse E u = Inr p"
      and "Scheme p = ''http'' \<or> Scheme p = ''https''"
      and "fetchWithChrome E n w u c = Some (r, w')"
  shows "(c \<noteq> [] \<longrightarrow> new_events w w' = [get_with_cookie E u c]) \<and>
         (c = [] \<longrightarrow> (\<forall>a. anubis E = Some a \<longrightarrow> fst (GetCachedCookie a (net w) (Host p)) \<noteq> [] \<longrightarrow>
            (\<exists>rest. new_events w w' =
               EvCacheLookup (Host p) # get_with_cookie E u (fst (GetCachedCookie a (net w) (Host p))) # rest))) \<and>
         (c = [] \<longrightarrow> (\<forall>a. anubis E = Some a \<longrightarrow> fst (GetCachedCookie a (net w) (Host p)) = [] \<longrightarrow>
            (\<exists>rest. new_events w w' = EvCacheLookup (Host p) # get_plain E u # rest))) \<and>
         (c = [] \<longrightarrow> anubis E = None \<longrightarrow> new_events w w' = [get_plain E u]) \<and>
         ''cookie'' \<notin> fst ` set (chrome_headers (ChromeUserAgent E))"
proof (intro conjI impI allI)
  let ?hs = "chrome_headers (ChromeUserAgent E)"
  { assume c: "c \<noteq> []"
    from fetchWithChrome_first_get[OF assms(1,2) add_cookie_given[OF c] assms(3)] c
    show "new_events w w' = [get_with_cookie E u c]" by (simp add: get_with_cookie_def) }
  { fix a assume c: "c = []" and a: "anubis E = Some a" and g: "fst (GetCachedCookie a (net w) (Host p)) \<noteq> []"
    from fetchWithChrome_first_get[OF assms(1,2) add_cookie_cached[OF a, of w "Host p" ?hs]] assms(3) c g
    show "\<exists>rest. new_events w w' =
               EvCacheLookup (Host p) # get_with_cookie E u (fst (GetCachedCookie a (net w) (Host p))) # rest"
      by (fastforce simp: get_with_cookie_def) }
  { fix a assume c: "c = []" and a: "anubis E = Some a" and g: "fst (GetCachedCookie a (net w) (Host p)) = []"
    from fetchWithChrome_first_get[OF assms(1,2) add_cookie_cached[OF a, of w "Host p" ?hs]] assms(3) c g
    show "\<exists>rest. new_events w w' = EvCacheLookup (Host p) # get_plain E u # rest"
      by (fastforce simp: get_plain_def) }
  { assume c: "c = []" and a: "anubis E = None"
    from fetchWithChrome_first_get[OF assms(1,2) add_cookie_no_solver[OF a, of w "Host p" ?hs]] assms(3) c a
    show "new_events w w' = [get_plain E u]" by (simp add: get_plain_def) }
  show "''cookie'' \<notin> fst ` set (chrome_headers (ChromeUserAgent E))"
    by (simp add: chrome_headers_def)
qed

theorem cookie_precedence_witness:
  "\<exists>rest. new_events (stub_world None None)
      (stub_world None None\<lparr>net := 1, trace :=
         [EvCacheLookup ''example.org'',
          get_with_cookie (stub_env ''anubis-auth=old'' plain_page) ''https://example.org/post'' ''anubis-auth=old'']\<rparr>) =
    EvCacheLookup ''example.org'' #
    get_with_cookie (stub_env ''anubis-auth=old'' plain_page) ''https://example.org/post'' ''anubis-auth=old'' # rest"
proof -
  let ?E = "stub_env ''anubis-auth=old'' plain_page"
  let ?w = "stub_world None None"
  let ?w' = "?w\<lparr>net := 1, trace := [EvCacheLookup ''example.org'',
          get_with_cookie ?E ''https://example.org/post'' ''anubis-auth=old'']\<rparr>"
  have a: "url_Parse ?E ''https://example.org/post'' = Inr \<lparr>Scheme = ''https'', Host = ''example.org''\<rparr>"
    by (simp add: stub_env_def stub_url_Parse_def)
  have b: "Scheme \<lparr>Scheme = ''https'', Host = ''example.org''\<rparr> = ''http'' \<or>
           Scheme \<lparr>Scheme = ''https'', Host = ''example.org''\<rparr> = ''https''" by simp
  have f: "fetchWithChrome ?E 1 ?w ''https://example.org/post'' [] =
             Some (Inr ''<article><p>Hello</p></article>'', ?w')"
    by (simp add: fetchWithChrome.simps stub_env_def stub_url_Parse_def stub_solver_def stub_world_def
        plain_page_def add_cookie_def get_with_cookie_def challenge_page_def)
  have s: "anubis ?E = Some (stub_solver ''anubis-auth=old'')" by (simp add: stub_env_def)
  have g: "fst (GetCachedCookie (stub_solver ''anubis-auth=old'') (net ?w) (Host \<lparr>Scheme = ''https'', Host = ''example.org''\<rparr>)) = ''anubis-auth=old''"
    by (simp add: stub_solver_def)
  from cookie_precedence [OF a b f] s g show ?thesis by simp
qed

text \<open>
  C4, as amended. A call of \<^verbatim>\<open>FetchReadableContent\<close> that returns either adds no write to
  the trace and leaves the repository as it was, or adds exactly one write, as its last
  event: the fetch returned a body, \<^verbatim>\<open>url.Parse\<close>, the readability parser on the
  sanitized body and the rendering all succeeded, the rendered content is non-empty, and
  that content is what is written for this entry. When the rendered output is empty the
  call fails with \<^verbatim>\<open>ErrInvalid\<close>, writes nothing and leaves the repository as it was. On
  an error path either \<^verbatim>\<open>UpdateReadableContent\<close> was not called and the repository is
  unchanged, or the error is the one \<^verbatim>\<open>UpdateReadableContent\<close> returned for that
  content (lines 110 to 112) and the repository is what that call left.
\<close>

theorem FetchReadableContent_persists_last:
  assumes "FetchReadableContent E fuel w entryID = Some (r, w')"
  shows "((count_updates (new_events w w') = 0 \<and> repo w' = repo w) \<or>
          (\<exists>e u body w1 p art c res.
             GetByID E (repo w) entryID = Inr e \<and> needs_fetch e u \<and>
             fetchWithChrome E fuel w u [] = Some (Inr body, w1) \<and>
             url_Parse E u = Inr p \<and> readability_Parse E (Sanitize E body) p = Inr art \<and>
             RenderHTML E art = Inr c \<and> c \<noteq> [] \<and>
             new_events w w' = new_events w w1 @ [EvUpdate entryID c] \<and>
             count_updates (new_events w w1) = 0 \<and>
             UpdateReadableContent E (repo w) entryID c = (res, repo w') \<and>
             r = (case res of Some err \<Rightarrow> Inl err | None \<Rightarrow> Inr c))) \<and>
         (\<forall>e u body w1 p art.
             GetByID E (repo w) entryID = Inr e \<and> needs_fetch e u \<and>
             fetchWithChrome E fuel w u [] = Some (Inr body, w1) \<and>
             url_Parse E u = Inr p \<and> readability_Parse E (Sanitize E body) p = Inr art \<and>
             RenderHTML E art = Inr [] \<longrightarrow>
             r = Inl ErrInvalid \<and> count_updates (new_events w w') = 0 \<and> repo w' = repo w) \<and>
         (\<forall>err. r = Inl err \<longrightarrow>
            (count_updates (new_events w w') = 0 \<and> repo w' = repo w) \<or>
            (\<exists>c. c \<noteq> [] \<and> UpdateReadableContent E (repo w) entryID c = (Some err, repo w') \<and>
               (\<exists>pre. new_events w w' = pre @ [EvUpdate entryID c] \<and> count_updates pre = 0)))"
proof (cases "\<exists>e u. GetByID E (repo w) entryID = Inr e \<and> needs_fetch e u")
  case False
  from FetchReadableContent_no_fetch[OF assms False] have "w' = w" .
  with False show ?thesis by (auto simp: new_events_def)
next
  case True
  then obtain e u where eu: "GetByID E (repo w) entryID = Inr e" "needs_fetch e u" by blast
  note unf = FetchReadableContent_fetch[OF eu, of fuel]
  show ?thesis
  proof (cases "fetchWithChrome E fuel w u []")
    case None with unf assms show ?thesis by simp
  next
    case (Some x)
    obtain fr w1 where x: "x = (fr, w1)" by (cases x)
    from fetchWithChrome_events[OF Some[unfolded x]] obtain e1 where
      w1: "repo w1 = repo w" "trace w1 = trace w @ e1" "count_updates e1 = 0" by auto
    have ne1: "new_events w w1 = e1" using w1(2) by simp
    show ?thesis
    proof (cases fr)
      case (Inl err)
      with unf assms Some x have rw: "r = Inl err" "w' = w1" by simp_all
      have A: "count_updates (new_events w w') = 0 \<and> repo w' = repo w" using rw w1 ne1 by simp
      have B: "\<And>e' u' body w1' p art. GetByID E (repo w) entryID = Inr e' \<Longrightarrow> needs_fetch e' u' \<Longrightarrow>
                 fetchWithChrome E fuel w u' [] = Some (Inr body, w1') \<Longrightarrow> False"
        using eu Some x Inl needs_fetch_unique by fastforce
      from A B show ?thesis by blast
    next
      case (Inr body)
      with unf assms Some x have es: "extract_and_store E w1 entryID u body = Some (r, w')" by simp
      have fb: "fetchWithChrome E fuel w u [] = Some (Inr body, w1)" using Some x Inr by simp
      have uniq: "\<And>e' u' body' w1'. GetByID E (repo w) entryID = Inr e' \<Longrightarrow> needs_fetch e' u' \<Longrightarrow>
                 fetchWithChrome E fuel w u' [] = Some (Inr body', w1') \<Longrightarrow> body' = body \<and> w1' = w1 \<and> u' = u"
        using eu fb needs_fetch_unique by fastforce
      from extract_and_store_cases[OF es]
      consider (err) err where "w' = w1" "r = Inl err"
        | (upd) p art c res d' where "url_Parse E u = Inr p" "readability_Parse E (Sanitize E body) p = Inr art"
            "RenderHTML E art = Inr c" "c \<noteq> []" "UpdateReadableContent E (repo w1) entryID c = (res, d')"
            "w' = w1\<lparr>repo := d', trace := trace w1 @ [EvUpdate entryID c]\<rparr>"
            "r = (case res of Some err \<Rightarrow> Inl err | None \<Rightarrow> Inr c)"
        by blast
      then show ?thesis
      proof cases
        case err
        have A: "count_updates (new_events w w') = 0 \<and> repo w' = repo w" using err w1 ne1 by simp
        have B: "\<And>e' u' body' w1' p art. GetByID E (repo w) entryID = Inr e' \<Longrightarrow> needs_fetch e' u' \<Longrightarrow>
                 fetchWithChrome E fuel w u' [] = Some (Inr body', w1') \<Longrightarrow> url_Parse E u' = Inr p \<Longrightarrow>
                 readability_Parse E (Sanitize E body') p = Inr art \<Longrightarrow> RenderHTML E art = Inr [] \<Longrightarrow>
                 r = Inl ErrInvalid"
        proof -
          fix e' u' body' w1' p art
          assume h: "GetByID E (repo w) entryID = Inr e'" "needs_fetch e' u'"
                 "fetchWithChrome E fuel w u' [] = Some (Inr body', w1')" "url_Parse E u' = Inr p"
                 "readability_Parse E (Sanitize E body') p = Inr art" "RenderHTML E art = Inr []"
          from uniq[OF h(1,2,3)] have "body' = body" "w1' = w1" "u' = u" by simp_all
          with extract_and_store_empty[of E u p body art w1 entryID] h es show "r = Inl ErrInvalid" by simp
        qed
        from A B show ?thesis by blast
      next
        case upd
        have t: "trace w' = trace w @ (e1 @ [EvUpdate entryID c])" using upd(6) w1 by simp
        have ne: "new_events w w' = new_events w w1 @ [EvUpdate entryID c]"
          using new_events_append[OF t] ne1 by simp
        have rp: "UpdateReadableContent E (repo w) entryID c = (res, repo w')" using upd(5,6) w1 by simp
        have A: "\<exists>e u body w1 p art c res.
             GetByID E (repo w) entryID = Inr e \<and> needs_fetch e u \<and>
             fetchWithChrome E fuel w u [] = Some (Inr body, w1) \<and>
             url_Parse E u = Inr p \<and> readability_Parse E (Sanitize E body) p = Inr art \<and>
             RenderHTML E art = Inr c \<and> c \<noteq> [] \<and>
             new_events w w' = new_events w w1 @ [EvUpdate entryID c] \<and>
             count_updates (new_events w w1) = 0 \<and>
             UpdateReadableContent E (repo w) entryID c = (res, repo w') \<and>
             r = (case res of Some err \<Rightarrow> Inl err | None \<Rightarrow> Inr c)"
          using eu fb upd(1,2,3,4,7) ne ne1 w1(3) rp by blast
        have B: "\<And>e' u' body' w1' p' art'. GetByID E (repo w) entryID = Inr e' \<Longrightarrow> needs_fetch e' u' \<Longrightarrow>
                 fetchWithChrome E fuel w u' [] = Some (Inr body', w1') \<Longrightarrow> url_Parse E u' = Inr p' \<Longrightarrow>
                 readability_Parse E (Sanitize E body') p' = Inr art' \<Longrightarrow> RenderHTML E art' = Inr [] \<Longrightarrow>
                 False"
        proof -
          fix e' u' body' w1' p' art'
          assume h: "GetByID E (repo w) entryID = Inr e'" "needs_fetch e' u'"
                 "fetchWithChrome E fuel w u' [] = Some (Inr body', w1')" "url_Parse E u' = Inr p'"
                 "readability_Parse E (Sanitize E body') p' = Inr art'" "RenderHTML E art' = Inr []"
          from uniq[OF h(1,2,3)] have "body' = body" "w1' = w1" "u' = u" by simp_all
          with h upd(1,2,3,4) show False by simp
        qed
        have C: "r = Inl err \<Longrightarrow>
            \<exists>c. c \<noteq> [] \<and> UpdateReadableContent E (repo w) entryID c = (Some err, repo w') \<and>
               (\<exists>pre. new_events w w' = pre @ [EvUpdate entryID c] \<and> count_updates pre = 0)" for err
          using rp upd(4,7) ne ne1 w1(3) by (cases res) auto
        from A B C show ?thesis by blast
      qed
    qed
  qed
qed

theorem FetchReadableContent_persists_last_witness:
  "FetchReadableContent (stub_env [] empty_page) 1 (stub_world (Some ''https://example.org/post'') None) 1 =
     Some (Inl ErrInvalid, stub_world (Some ''https://example.org/post'') None
       \<lparr>net := 1, trace := [EvCacheLookup ''example.org'', get_plain (stub_env [] empty_page) ''https://example.org/post'']\<rparr>) \<and>
   repo (stub_world (Some ''https://example.org/post'') None
       \<lparr>net := 1, trace := [EvCacheLookup ''example.org'', get_plain (stub_env [] empty_page) ''https://example.org/post'']\<rparr>)
     = repo (stub_world (Some ''https://example.org/post'') None)"
proof -
  let ?E = "stub_env [] empty_page"
  let ?u = "''https://example.org/post''"
  let ?w = "stub_world (Some ?u) None"
  let ?w' = "?w\<lparr>net := 1, trace := [EvCacheLookup ''example.org'', get_plain ?E ?u]\<rparr>"
  let ?e = "\<lparr>URL = Some ?u, ReadableContent = None\<rparr>"
  let ?p = "\<lparr>Scheme = ''https'', Host = ''example.org''\<rparr>"
  have f: "FetchReadableContent ?E 1 ?w 1 = Some (Inl ErrInvalid, ?w')"
    by (simp add: FetchReadableContent_def fetchWithChrome.simps stub_env_def stub_url_Parse_def
        stub_solver_def stub_world_def empty_page_def add_cookie_def get_plain_def challenge_page_def)
  have a: "GetByID ?E (repo ?w) 1 = Inr ?e" by (simp add: stub_env_def stub_world_def)
  have b: "needs_fetch ?e ?u" by (simp add: needs_fetch_def)
  have c: "fetchWithChrome ?E 1 ?w ?u [] = Some (Inr [], ?w')"
    by (simp add: fetchWithChrome.simps stub_env_def stub_url_Parse_def
        stub_solver_def stub_world_def empty_page_def add_cookie_def get_plain_def challenge_page_def)
  have d: "url_Parse ?E ?u = Inr ?p" by (simp add: stub_env_def stub_url_Parse_def)
  have e: "readability_Parse ?E (Sanitize ?E []) ?p = Inr []" by (simp add: stub_env_def)
  have g: "RenderHTML ?E [] = Inr []" by (simp add: stub_env_def)
  from FetchReadableContent_persists_last [OF f] a b c d e g have "repo ?w' = repo ?w" by blast
  with f show ?thesis by simp
qed

text \<open>
  The statement of the specification (the stored content unchanged on every error path)
  does not hold for a repository whose \<^verbatim>\<open>UpdateReadableContent\<close> stores the content and
  then reports an error: \<^verbatim>\<open>FetchReadableContent\<close> returns that error at line 111 and
  undoes nothing, so the call fails and the entry holds the new content.
\<close>

theorem failed_update_changes_stored_content:
  "FetchReadableContent write_then_fail_env 1 (stub_world (Some ''https://example.org/post'') None) 1 =
     Some (Inl (External ''context canceled''),
       \<lparr>repo = [(1, \<lparr>URL = Some ''https://example.org/post'',
                      ReadableContent = Some ''<article><p>Hello</p></article>''\<rparr>)],
        net = 1,
        trace = [EvCacheLookup ''example.org'',
                 get_plain write_then_fail_env ''https://example.org/post'',
                 EvUpdate 1 ''<article><p>Hello</p></article>'']\<rparr>) \<and>
   repo (stub_world (Some ''https://example.org/post'') None) =
     [(1, \<lparr>URL = Some ''https://example.org/post'', ReadableContent = None\<rparr>)]"
  by (simp add: FetchReadableContent_def fetchWithChrome.simps write_then_fail_env_def stub_env_def
        stub_url_Parse_def stub_solver_def stub_world_def plain_page_def add_cookie_def get_plain_def
        challenge_page_def Let_def)

text \<open>
  C1, as amended. Take an entry that has to be fetched (no stored content, a non-empty URL
  with scheme http or https), a solver whose successful solve returns a non-empty cookie,
  and a network on which every GET of the URL answers 200 with a challenge page. Then
  \<^verbatim>\<open>FetchReadableContent\<close> returns within depth two, and what it does is this: it asks
  the cache for the host, sends the first GET with the cached cookie (if any), gets a
  challenge page, and calls \<^verbatim>\<open>SolveFromBody\<close> once, on the body and cookies of that
  response. The trace of the call holds exactly one solve.
  If that solve returns an error, the call fails with the error wrapped as "anubis solve
  failed", and the cache lookup, the one GET and the solve are all its events: nothing is
  written.
  If that solve returns a cookie, the cookie is non-empty and the URL is fetched once more
  with exactly that cookie in the cookie header; the response is again a challenge page,
  \<^verbatim>\<open>fetchWithChrome\<close> returns its body without error (line 181 looks for a challenge only
  when the cookie argument is empty), and the result of the call is what sanitizing,
  extracting and storing that body gives. There are exactly two GETs, no second solve is
  attempted, and no error is raised for the second challenge page.
\<close>

theorem challenge_on_every_fetch:
  assumes e: "GetByID E (repo w) entryID = Inr e" and nf: "needs_fetch e u"
      and p: "url_Parse E u = Inr p" and sch: "Scheme p = ''http'' \<or> Scheme p = ''https''"
      and a: "anubis E = Some a" and s: "solver_issues_cookie E"
      and ch: "always_challenged E u"
  shows "\<exists>cc n1 resp1 n2 sr n3 r w'.
     GetCachedCookie a (net w) (Host p) = (cc, n1) \<and>
     session_Do E n1 (chrome_request E u cc) = (Inr resp1, n2) \<and>
     StatusCode resp1 = 200 \<and> IsAnubisChallenge E (Body resp1) \<and>
     SolveFromBody a n2 (Body resp1) u (Cookies resp1) = (sr, n3) \<and>
     FetchReadableContent E (Suc (Suc k)) w entryID = Some (r, w') \<and>
     count_solves (new_events w w') = 1 \<and>
     (\<forall>err. sr = Inl err \<longrightarrow>
        r = Inl (Wrapped ''anubis solve failed'' err) \<and>
        w' = w\<lparr>net := n3,
               trace := trace w @ [EvCacheLookup (Host p), EvGet (chrome_request E u cc),
                                   EvSolve (Body resp1) u (Cookies resp1)]\<rparr>) \<and>
     (\<forall>c'. sr = Inr c' \<longrightarrow>
        c' \<noteq> [] \<and>
        (\<exists>resp2 n4.
           session_Do E n3 (chrome_request E u c') = (Inr resp2, n4) \<and>
           StatusCode resp2 = 200 \<and> IsAnubisChallenge E (Body resp2) \<and>
           fetchWithChrome E (Suc (Suc k)) w u [] =
             Some (Inr (Body resp2),
                   w\<lparr>net := n4,
                      trace := trace w @ [EvCacheLookup (Host p), EvGet (chrome_request E u cc),
                                          EvSolve (Body resp1) u (Cookies resp1),
                                          EvGet (chrome_request E u c')]\<rparr>) \<and>
           extract_and_store E
             (w\<lparr>net := n4,
                 trace := trace w @ [EvCacheLookup (Host p), EvGet (chrome_request E u cc),
                                     EvSolve (Body resp1) u (Cookies resp1),
                                     EvGet (chrome_request E u c')]\<rparr>)
             entryID u (Body resp2) = Some (r, w') \<and>
           count_gets (new_events w w') = 2))"
proof -
  note unf = FetchReadableContent_fetch[OF e nf, of "Suc (Suc k)"]
  obtain cc n1 where g: "GetCachedCookie a (net w) (Host p) = (cc, n1)"
    by (cases "GetCachedCookie a (net w) (Host p)")
  let ?w1 = "w\<lparr>net := n1, trace := trace w @ [EvCacheLookup (Host p)]\<rparr>"
  let ?r1 = "chrome_request E u cc"
  note ac = add_cookie_lookup[OF a g, of u]
  from always_challengedD[OF ch Url_chrome_request[of E u cc], of n1]
  obtain resp1 n2 where d1: "session_Do E n1 ?r1 = (Inr resp1, n2)" "StatusCode resp1 = 200"
    "IsAnubisChallenge E (Body resp1)" by blast
  obtain sr n3 where sv: "SolveFromBody a n2 (Body resp1) u (Cookies resp1) = (sr, n3)"
    by (cases "SolveFromBody a n2 (Body resp1) u (Cookies resp1)")
  let ?w3 = "w\<lparr>net := n3, trace := trace w @ [EvCacheLookup (Host p), EvGet ?r1,
                                   EvSolve (Body resp1) u (Cookies resp1)]\<rparr>"
  have first: "fetchWithChrome E (Suc j) w u [] =
      (case sr of Inl err \<Rightarrow> Some (Inl (Wrapped ''anubis solve failed'' err), ?w3)
                | Inr c' \<Rightarrow> fetchWithChrome E j ?w3 u c')" for j
    using p sch a ac d1 sv
    by (auto simp: fetchWithChrome.simps request_eq Let_def split: sum.splits)
  show ?thesis
  proof (cases sr)
    case (Inl err)
    have f: "fetchWithChrome E (Suc (Suc k)) w u [] = Some (Inl (Wrapped ''anubis solve failed'' err), ?w3)"
      using first[of "Suc k"] Inl by simp
    then have F: "FetchReadableContent E (Suc (Suc k)) w entryID =
        Some (Inl (Wrapped ''anubis solve failed'' err), ?w3)" using unf by simp
    have t: "trace ?w3 = trace w @ [EvCacheLookup (Host p), EvGet ?r1, EvSolve (Body resp1) u (Cookies resp1)]"
      by simp
    have cs: "count_solves (new_events w ?w3) = 1" using new_events_append[OF t] by simp
    show ?thesis
      apply (rule exI[of _ cc], rule exI[of _ n1], rule exI[of _ resp1], rule exI[of _ n2])
      apply (rule exI[of _ sr], rule exI[of _ n3])
      apply (rule exI[of _ "Inl (Wrapped ''anubis solve failed'' err)"], rule exI[of _ ?w3])
      using g d1 sv F cs Inl apply simp
      done
  next
    case (Inr c')
    from s a sv Inr have c': "c' \<noteq> []" unfolding solver_issues_cookie_def by blast
    let ?r2 = "chrome_request E u c'"
    from always_challengedD[OF ch Url_chrome_request[of E u c'], of n3]
    obtain resp2 n4 where d2: "session_Do E n3 ?r2 = (Inr resp2, n4)" "StatusCode resp2 = 200"
      "IsAnubisChallenge E (Body resp2)" by blast
    let ?w4 = "w\<lparr>net := n4, trace := trace w @ [EvCacheLookup (Host p), EvGet ?r1,
                        EvSolve (Body resp1) u (Cookies resp1), EvGet ?r2]\<rparr>"
    have hs: "chrome_headers (ChromeUserAgent E) @ [(''cookie'', c')] = OrderedHeaders ?r2"
      using c' by (simp add: chrome_request_def)
    have second: "fetchWithChrome E (Suc k) ?w3 u c' = Some (Inr (Body resp2), ?w4)"
      using p sch a c' d2
      by (auto simp: fetchWithChrome.simps add_cookie_given hs request_eq Let_def)
    have f: "fetchWithChrome E (Suc (Suc k)) w u [] = Some (Inr (Body resp2), ?w4)"
      using first[of "Suc k"] Inr second by simp
    from extract_and_store_total[of E ?w4 entryID u "Body resp2"] obtain r w' where
      es: "extract_and_store E ?w4 entryID u (Body resp2) = Some (r, w')" by blast
    have F: "FetchReadableContent E (Suc (Suc k)) w entryID = Some (r, w')" using unf f es by simp
    from extract_and_store_events[OF es] obtain e2 where
      e2: "trace w' = trace ?w4 @ e2" "count_gets e2 = 0" "count_solves e2 = 0" by blast
    have t: "trace w' = trace w @ ([EvCacheLookup (Host p), EvGet ?r1,
                        EvSolve (Body resp1) u (Cookies resp1), EvGet ?r2] @ e2)" using e2(1) by simp
    have cnt: "count_solves (new_events w w') = 1" "count_gets (new_events w w') = 2"
      using new_events_append[OF t] e2(2,3) by simp_all
    show ?thesis
      apply (rule exI[of _ cc], rule exI[of _ n1], rule exI[of _ resp1], rule exI[of _ n2])
      apply (rule exI[of _ sr], rule exI[of _ n3], rule exI[of _ r], rule exI[of _ w'])
      using g d1 sv F cnt Inr c' d2 f es apply simp
      done
  qed
qed

theorem challenge_on_every_fetch_witness:
  "\<exists>r w'. FetchReadableContent (stub_env [] always_challenge) (Suc (Suc 0))
       (stub_world (Some ''https://example.org/post'') None) 1 = Some (r, w') \<and>
     count_solves (new_events (stub_world (Some ''https://example.org/post'') None) w') = 1"
proof -
  let ?E = "stub_env [] always_challenge"
  let ?u = "''https://example.org/post''"
  let ?w = "stub_world (Some ?u) None"
  let ?e = "\<lparr>URL = Some ?u, ReadableContent = None\<rparr>"
  let ?p = "\<lparr>Scheme = ''https'', Host = ''example.org''\<rparr>"
  have a: "GetByID ?E (repo ?w) 1 = Inr ?e" by (simp add: stub_env_def stub_world_def)
  have b: "needs_fetch ?e ?u" by (simp add: needs_fetch_def)
  have c: "url_Parse ?E ?u = Inr ?p" by (simp add: stub_env_def stub_url_Parse_def)
  have d: "Scheme ?p = ''http'' \<or> Scheme ?p = ''https''" by simp
  have e: "anubis ?E = Some (stub_solver [])" by (simp add: stub_env_def)
  have f: "solver_issues_cookie ?E"
    by (simp add: solver_issues_cookie_def stub_env_def stub_solver_def)
  have g: "always_challenged ?E ?u"
    by (simp add: always_challenged_def stub_env_def always_challenge_def)
  from challenge_on_every_fetch [OF a b c d e f g, of 0] show ?thesis by blast
qed

text \<open>
  The statement of the specification (a hard failure after the single retry, never success
  for a challenge page) does not hold: with a network that answers every GET with a challenge
  page, the call below succeeds. The trace shows the cache lookup, the first GET, the one
  solve, the GET with the solved cookie, and then the write of the challenge page as the
  readable content of the entry.
\<close>

theorem challenge_page_returned_as_content:
  "FetchReadableContent (stub_env [] always_challenge) 2 (stub_world (Some ''https://example.org/post'') None) 1 =
     Some (Inr challenge_page,
       \<lparr>repo = [(1, \<lparr>URL = Some ''https://example.org/post'', ReadableContent = Some challenge_page\<rparr>)],
        net = 3,
        trace = [EvCacheLookup ''example.org'',
                 get_plain (stub_env [] always_challenge) ''https://example.org/post'',
                 EvSolve challenge_page ''https://example.org/post'' [],
                 get_with_cookie (stub_env [] always_challenge) ''https://example.org/post'' ''anubis-auth=pass'',
                 EvUpdate 1 challenge_page]\<rparr>) \<and>
   IsAnubisChallenge (stub_env [] always_challenge) challenge_page"
  by (simp add: FetchReadableContent_def fetchWithChrome.simps numeral_2_eq_2 stub_env_def stub_url_Parse_def
        stub_solver_def stub_world_def always_challenge_def add_cookie_def get_plain_def get_with_cookie_def
        challenge_page_def Let_def)

lemma fetchWithChrome_returns_challenge_page:
  "fetchWithChrome (stub_env [] always_challenge) 2 (stub_world None None) ''https://example.org/post'' [] =
     Some (Inr challenge_page,
       \<lparr>repo = [(1, \<lparr>URL = None, ReadableContent = None\<rparr>)],
        net = 3,
        trace = [EvCacheLookup ''example.org'',
                 get_plain (stub_env [] always_challenge) ''https://example.org/post'',
                 EvSolve challenge_page ''https://example.org/post'' [],
                 get_with_cookie (stub_env [] always_challenge) ''https://example.org/post'' ''anubis-auth=pass'']\<rparr>)"
  by (simp add: fetchWithChrome.simps numeral_2_eq_2 stub_env_def stub_url_Parse_def
        stub_solver_def stub_world_def always_challenge_def add_cookie_def get_plain_def get_with_cookie_def
        challenge_page_def Let_def)

section \<open>Claims on the scheduler\<close>

text \<open>
  C5. Take any run of the system from \<^verbatim>\<open>New\<close>. When the caller is past \<^verbatim>\<open>Stop\<close> (it
  returned), the goroutine of \<^verbatim>\<open>run\<close> has returned, so no refresh cycle is in flight, and
  nothing can happen any more: every continuation of the run leaves the state as it is, so
  no new cycle starts. And while the caller is inside \<^verbatim>\<open>Stop\<close> and the loop has not
  returned (a cycle in flight, or the loop at its \<^verbatim>\<open>select\<close>), \<^verbatim>\<open>s.wg.Wait()\<close> cannot
  return.
\<close>

theorem Stop_returns_after_loop_exit:
  assumes "exec E acts (New r i) = Some s"
  shows "(caller s = Stopped \<longrightarrow>
            loop s = Returned \<and> (\<forall>more s'. exec E more s = Some s' \<longrightarrow> s' = s)) \<and>
         (caller s = Stopping \<and> loop s \<noteq> Returned \<longrightarrow> step E Wait_Returns s = None)"
proof -
  from sched_inv_exec[OF sched_inv_New assms] have inv: "sched_inv s" .
  have a: "caller s = Stopped \<Longrightarrow> loop s = Returned \<and> ticker s = TickerStopped"
    using inv by (auto simp: sched_inv_def)
  have b: "caller s = Stopping \<Longrightarrow> loop s \<noteq> Returned \<Longrightarrow> wg s = 1"
    using inv by (auto simp: sched_inv_def split: if_splits)
  have c: "caller s = Stopping \<Longrightarrow> loop s \<noteq> Returned \<Longrightarrow> step E Wait_Returns s = None"
    using b by (simp add: step_def)
  from a c stopped_exec show ?thesis by blast
qed

theorem Stop_returns_after_loop_exit_witness:
  "exec stub_refresh [Call_Start, Run_Begins, Call_Stop, Refresh_Returns, Select_Stop, Wait_Returns]
     (New 0 (60 * Second)) =
   Some \<lparr>interval = 60000000000, stopCh_closed = True, wg = 0, caller = Stopped,
     loop = Returned, ticker = TickerStopped, svc = 1,
     logged = [LogStarted 60000000000, LogRefreshStarting, LogRefreshError ''feed fetch failed'',
               LogRefreshCompleted, LogStopped],
     calls = [WithTimeout Background 300000000000], ticks_taken = 0\<rparr> \<and>
   step stub_refresh Wait_Returns
     \<lparr>interval = 60000000000, stopCh_closed = True, wg = 1, caller = Stopping,
       loop = InRefresh, ticker = NoTicker, svc = 0,
       logged = [LogStarted 60000000000, LogRefreshStarting],
       calls = [WithTimeout Background 300000000000], ticks_taken = 0\<rparr> = None"
proof -
  let ?S = "\<lparr>interval = 60000000000, stopCh_closed = True, wg = 0, caller = Stopped,
     loop = Returned, ticker = TickerStopped, svc = 1::nat,
     logged = [LogStarted 60000000000, LogRefreshStarting, LogRefreshError ''feed fetch failed'',
               LogRefreshCompleted, LogStopped],
     calls = [WithTimeout Background 300000000000], ticks_taken = 0\<rparr>"
  let ?T = "\<lparr>interval = 60000000000, stopCh_closed = True, wg = 1, caller = Stopping,
       loop = InRefresh, ticker = NoTicker, svc = 0::nat,
       logged = [LogStarted 60000000000, LogRefreshStarting],
       calls = [WithTimeout Background 300000000000], ticks_taken = 0\<rparr>"
  have e: "exec stub_refresh [Call_Start, Run_Begins, Call_Stop, Refresh_Returns, Select_Stop, Wait_Returns]
     (New 0 (60 * Second)) = Some ?S"
    by (simp add: exec_eval)
  have f: "exec stub_refresh [Call_Start, Run_Begins, Call_Stop] (New 0 (60 * Second)) = Some ?T"
    by (simp add: exec_eval)
  from Stop_returns_after_loop_exit [OF e] have "loop ?S = Returned" by simp
  moreover from Stop_returns_after_loop_exit [OF f] have "step stub_refresh Wait_Returns ?T = None" by simp
  ultimately show ?thesis using e by simp
qed

text \<open>
  C6. In any run from \<^verbatim>\<open>New\<close>, for every interval: \<^verbatim>\<open>Start\<close> creates the goroutine of
  \<^verbatim>\<open>run\<close>; the only step that goroutine can take first is to enter \<^verbatim>\<open>s.refresh()\<close>,
  which needs no tick, and that is the first call of \<^verbatim>\<open>RefreshAll\<close>. The number of cycles
  started is one, once \<^verbatim>\<open>run\<close> has begun, plus the number of ticks received. Until the
  first cycle has returned there is no ticker: no tick can arrive or be received, and exactly
  one cycle has been started.
\<close>

theorem first_cycle_needs_no_tick:
  assumes "exec E acts (New r i) = Some s"
  shows "length (calls s) = (if loop s = NotSpawned \<or> loop s = Spawned then 0 else 1) + ticks_taken s \<and>
         (ticker s = NoTicker \<longrightarrow> ticks_taken s = 0 \<and> step E Tick s = None \<and> step E Select_Tick s = None) \<and>
         (loop s = Spawned \<longrightarrow>
            step E Run_Begins s = Some (refresh_enter (s\<lparr>loop := InRefresh\<rparr>)) \<and>
            calls (refresh_enter (s\<lparr>loop := InRefresh\<rparr>)) = [refresh_ctx] \<and>
            step E Refresh_Returns s = None \<and> step E Select_Tick s = None \<and> step E Select_Stop s = None) \<and>
         (loop s = InRefresh \<and> ticker s = NoTicker \<longrightarrow> calls s = [refresh_ctx]) \<and>
         step E Call_Start (New r i) = Some (Start (New r i)) \<and> loop (Start (New r i)) = Spawned"
proof -
  from sched_inv_exec[OF sched_inv_New assms] have inv: "sched_inv s" .
  have a: "length (calls s) = (if loop s = NotSpawned \<or> loop s = Spawned then 0 else 1) + ticks_taken s"
    using inv by (simp add: sched_inv_def)
  have b: "ticker s = NoTicker \<Longrightarrow> ticks_taken s = 0 \<and> step E Tick s = None \<and> step E Select_Tick s = None"
    using inv by (simp add: sched_inv_def step_def)
  have c0: "loop s = Spawned \<Longrightarrow> calls s = []" using inv by (auto simp: sched_inv_def)
  have c: "loop s = Spawned \<Longrightarrow>
            step E Run_Begins s = Some (refresh_enter (s\<lparr>loop := InRefresh\<rparr>)) \<and>
            calls (refresh_enter (s\<lparr>loop := InRefresh\<rparr>)) = [refresh_ctx] \<and>
            step E Refresh_Returns s = None \<and> step E Select_Tick s = None \<and> step E Select_Stop s = None"
    using c0 by (simp add: step_def refresh_enter_def)
  have d: "loop s = InRefresh \<and> ticker s = NoTicker \<Longrightarrow> calls s = [refresh_ctx]"
  proof -
    assume h: "loop s = InRefresh \<and> ticker s = NoTicker"
    with inv have "length (calls s) = 1" "\<forall>c\<in>set (calls s). c = refresh_ctx"
      by (simp_all add: sched_inv_def)
    then show ?thesis by (cases "calls s") auto
  qed
  have e: "step E Call_Start (New r i) = Some (Start (New r i)) \<and> loop (Start (New r i)) = Spawned"
    by (simp add: step_def New_def Start_def)
  from a b c d e show ?thesis by blast
qed

theorem first_cycle_needs_no_tick_witness:
  "exec stub_refresh [Call_Start, Run_Begins] (New 0 (60 * Second)) =
   Some \<lparr>interval = 60000000000, stopCh_closed = False, wg = 1, caller = Running,
     loop = InRefresh, ticker = NoTicker, svc = 0,
     logged = [LogStarted 60000000000, LogRefreshStarting],
     calls = [WithTimeout Background 300000000000], ticks_taken = 0\<rparr> \<and>
   calls \<lparr>interval = 60000000000, stopCh_closed = False, wg = 1, caller = Running,
     loop = InRefresh, ticker = NoTicker, svc = 0::nat,
     logged = [LogStarted 60000000000, LogRefreshStarting],
     calls = [WithTimeout Background 300000000000], ticks_taken = 0\<rparr> = [refresh_ctx]"
proof -
  let ?S = "\<lparr>interval = 60000000000, stopCh_closed = False, wg = 1, caller = Running,
     loop = InRefresh, ticker = NoTicker, svc = 0::nat,
     logged = [LogStarted 60000000000, LogRefreshStarting],
     calls = [WithTimeout Background 300000000000], ticks_taken = 0\<rparr>"
  have e: "exec stub_refresh [Call_Start, Run_Begins] (New 0 (60 * Second)) = Some ?S"
    by (simp add: exec_eval)
  from first_cycle_needs_no_tick [OF e] have "calls ?S = [refresh_ctx]" by simp
  with e show ?thesis by simp
qed

text \<open>
  C7. In any run from \<^verbatim>\<open>New\<close>: every call of \<^verbatim>\<open>RefreshAll\<close> got the context
  \<^verbatim>\<open>WithTimeout(Background, 5*time.Minute)\<close>, that is 300 seconds in nanoseconds. When a
  cycle is in flight and \<^verbatim>\<open>RefreshAll\<close> returns an error, \<^verbatim>\<open>refresh\<close> logs it, logs the
  completion and returns: the loop goes on exactly as after a success (to its \<^verbatim>\<open>select\<close>;
  only after the first cycle with a non-positive interval does \<^verbatim>\<open>time.NewTicker\<close> panic),
  and neither the caller nor the stop channel is touched. The loop returns only when
  \<^verbatim>\<open>stopCh\<close> has been closed, and it panics only with a non-positive interval.
\<close>

theorem cycle_deadline_and_errors:
  assumes "exec E acts (New r i) = Some s"
  shows "(\<forall>c\<in>set (calls s). c = WithTimeout Background 300000000000) \<and>
         (loop s = Returned \<longrightarrow> stopCh_closed s) \<and>
         (loop s = Panicked \<longrightarrow> i \<le> 0) \<and>
         (loop s = InRefresh \<longrightarrow>
            (\<forall>m r'. RefreshAll E (svc s) refresh_ctx = (Some m, r') \<longrightarrow>
               (\<exists>s'. step E Refresh_Returns s = Some s' \<and>
                  logged s' = logged s @ [LogRefreshError m, LogRefreshCompleted] \<and>
                  caller s' = caller s \<and> stopCh_closed s' = stopCh_closed s \<and> calls s' = calls s \<and>
                  loop s' = (if ticker s = NoTicker \<and> i \<le> 0 then Panicked else Selecting))))"
proof -
  from sched_inv_exec[OF sched_inv_New assms] have inv: "sched_inv s" .
  from interval_exec[OF assms] have iv: "interval s = i" by (simp add: New_def)
  have ctx: "refresh_ctx = WithTimeout Background 300000000000"
    by (simp add: refresh_ctx_def Minute_def Second_def)
  have a: "\<forall>c\<in>set (calls s). c = WithTimeout Background 300000000000"
    using inv ctx by (simp add: sched_inv_def)
  have b: "loop s = Returned \<longrightarrow> stopCh_closed s" using inv by (auto simp: sched_inv_def)
  have c: "loop s = Panicked \<longrightarrow> i \<le> 0" using inv iv by (auto simp: sched_inv_def)
  have d: "loop s = InRefresh \<Longrightarrow> RefreshAll E (svc s) refresh_ctx = (Some m, r') \<Longrightarrow>
            (\<exists>s'. step E Refresh_Returns s = Some s' \<and>
                  logged s' = logged s @ [LogRefreshError m, LogRefreshCompleted] \<and>
                  caller s' = caller s \<and> stopCh_closed s' = stopCh_closed s \<and> calls s' = calls s \<and>
                  loop s' = (if ticker s = NoTicker \<and> i \<le> 0 then Panicked else Selecting))" for m r'
    using iv by (simp add: step_def run_after_refresh_def refresh_leave_def)
  from a b c d show ?thesis by blast
qed

theorem cycle_deadline_and_errors_witness:
  "\<exists>s'. step stub_refresh Refresh_Returns
       \<lparr>interval = 60000000000, stopCh_closed = False, wg = 1, caller = Running,
         loop = InRefresh, ticker = NoTicker, svc = 0,
         logged = [LogStarted 60000000000, LogRefreshStarting],
         calls = [WithTimeout Background 300000000000], ticks_taken = 0\<rparr> = Some s' \<and>
     logged s' = [LogStarted 60000000000, LogRefreshStarting, LogRefreshError ''feed fetch failed'',
                  LogRefreshCompleted] \<and>
     loop s' = Selecting"
proof -
  let ?S = "\<lparr>interval = 60000000000, stopCh_closed = False, wg = 1, caller = Running,
     loop = InRefresh, ticker = NoTicker, svc = 0::nat,
     logged = [LogStarted 60000000000, LogRefreshStarting],
     calls = [WithTimeout Background 300000000000], ticks_taken = 0\<rparr>"
  have e: "exec stub_refresh [Call_Start, Run_Begins] (New 0 (60 * Second)) = Some ?S"
    by (simp add: exec_eval)
  have r: "RefreshAll stub_refresh (svc ?S) refresh_ctx = (Some ''feed fetch failed'', 1)"
    by (simp add: stub_refresh_def)
  have l: "loop ?S = InRefresh" by simp
  from cycle_deadline_and_errors [OF e] l r
  have "\<exists>s'. step stub_refresh Refresh_Returns ?S = Some s' \<and>
          logged s' = logged ?S @ [LogRefreshError ''feed fetch failed'', LogRefreshCompleted] \<and>
          caller s' = caller ?S \<and> stopCh_closed s' = stopCh_closed ?S \<and> calls s' = calls ?S \<and>
          loop s' = (if ticker ?S = NoTicker \<and> 60 * Second \<le> 0 then Panicked else Selecting)"
    by blast
  then show ?thesis by (auto simp: Second_def)
qed

end
